theory Spec2Isabelle
  imports Complex_Main "HOL-Library.Multiset" "HOL-Library.Product_Lexorder"
    "HOL-Library.List_Lexorder" "HOL-Library.Char_ord"
begin

section \<open>Tables\<close>

text \<open>
  The repository is three Python modules over pandas. This theory embeds
  \<^verbatim>\<open>tesla_data.py\<close> (\<^verbatim>\<open>get_region_names\<close>, \<^verbatim>\<open>split_by_region\<close>,
  \<^verbatim>\<open>add_date_column\<close>, \<^verbatim>\<open>save_region_dfs\<close>) and the data part of
  \<^verbatim>\<open>tesla_timeseries.py\<close> (\<^verbatim>\<open>_prepare_ts_df\<close> and the group-by that opens each
  \<^verbatim>\<open>plot_*\<close> function); the drawing and printing calls are left out.

  A DataFrame is a list of column names and a list of rows, each row a list of cells
  in column order. A cell is missing (\<open>Null\<close>: NaN, None or NaT), a number, a string or
  a timestamp. Numbers are finite and exact (\<open>real\<close>): rounding and overflow of the
  64-bit floats are not modelled. Timestamps are kept at day resolution, as a
  (year, month, day) triple ordered chronologically. The row index is not modelled:
  every table the code returns has had \<^verbatim>\<open>reset_index(drop=True)\<close> applied.
\<close>

type_synonym date = "int \<times> int \<times> int"

datatype cell = Null | Num real | Str string | Dt date

type_synonym row = "cell list"

record table =
  cols :: "string list"
  rows :: "row list"

text \<open>
  The exceptions the modelled code can raise. \<open>Unmodelled\<close> marks an input on which
  pandas has a behaviour this theory does not describe: a Year or Month that is a
  string or a timestamp, a number in the date column, a value column of a group-by
  that holds strings or timestamps, a Model that is not a string. It never stands
  for a success.
\<close>

datatype error = KeyError | ValueError | TypeError | UnboundLocalError | Unmodelled

definition wf_table :: "table \<Rightarrow> bool" where
  "wf_table t = (distinct (cols t) \<and> list_all (\<lambda>r. length r = length (cols t)) (rows t))"

fun col_index :: "string \<Rightarrow> string list \<Rightarrow> nat option" where
  "col_index c [] = None"
| "col_index c (x # xs) =
     (if x = c then Some 0 else map_option Suc (col_index c xs))"

definition cell_at :: "nat \<Rightarrow> row \<Rightarrow> cell" where
  "cell_at i r = (if i < length r then r ! i else Null)"

definition column :: "table \<Rightarrow> string \<Rightarrow> error + cell list" where
  \<comment> \<open>\<^verbatim>\<open>df[c]\<close>\<close>
  "column t c =
     (case col_index c (cols t) of
        None \<Rightarrow> Inl KeyError
      | Some i \<Rightarrow> Inr (map (cell_at i) (rows t)))"

definition setitem :: "table \<Rightarrow> string \<Rightarrow> cell list \<Rightarrow> table" where
  \<comment> \<open>\<^verbatim>\<open>df[c] = values\<close>: overwrite the column, or append it as the last one; the code
      only assigns a column computed from the same table, of as many values as rows\<close>
  "setitem t c vs =
     (case col_index c (cols t) of
        Some i \<Rightarrow> t\<lparr>rows := map2 (\<lambda>r v. r[i := v]) (rows t) vs\<rparr>
      | None \<Rightarrow> t\<lparr>cols := cols t @ [c], rows := map2 (\<lambda>r v. r @ [v]) (rows t) vs\<rparr>)"

definition drop_column :: "table \<Rightarrow> string \<Rightarrow> error + table" where
  \<comment> \<open>\<^verbatim>\<open>df.drop(columns=c)\<close>\<close>
  "drop_column t c =
     (case col_index c (cols t) of
        None \<Rightarrow> Inl KeyError
      | Some i \<Rightarrow> Inr (t\<lparr>cols := take i (cols t) @ drop (Suc i) (cols t),
                          rows := map (\<lambda>r. take i r @ drop (Suc i) r) (rows t)\<rparr>))"

section \<open>Strings\<close>

text \<open>
  A \<open>string\<close> is a list of bytes. \<^verbatim>\<open>str.strip\<close> and \<^verbatim>\<open>str.lower\<close> are modelled
  on ASCII; bytes above 127 pass through unchanged.
\<close>

definition is_space :: "char \<Rightarrow> bool" where
  "is_space c = (let n = (of_char c :: nat) in (9 \<le> n \<and> n \<le> 13) \<or> (28 \<le> n \<and> n \<le> 32))"

definition py_strip :: "string \<Rightarrow> string" where
  "py_strip s = rev (dropWhile is_space (rev (dropWhile is_space s)))"

definition lower_char :: "char \<Rightarrow> char" where
  "lower_char c = (let n = (of_char c :: nat) in if 65 \<le> n \<and> n \<le> 90 then char_of (n + 32) else c)"

definition py_lower :: "string \<Rightarrow> string" where
  "py_lower s = map lower_char s"

definition py_replace :: "char \<Rightarrow> char \<Rightarrow> string \<Rightarrow> string" where
  \<comment> \<open>\<^verbatim>\<open>s.replace(a, b)\<close> for one-character \<open>a\<close> and \<open>b\<close>\<close>
  "py_replace a b s = map (\<lambda>c. if c = a then b else c) s"

section \<open>Sorting rows\<close>

text \<open>
  \<^verbatim>\<open>DataFrame.sort_values\<close> orders the rows by the key columns, ascending, missing
  values last. Its default algorithm (\<^verbatim>\<open>kind="quicksort"\<close>) does not promise an order
  among rows with equal keys, so the algorithm is a parameter \<open>kind\<close> of every function
  that sorts: it takes the comparison of two rows and the rows. What a theorem needs of
  the algorithm is stated as its hypothesis: that it permutes the rows
  (\<open>sort_permutes\<close>), that it sorts them (\<open>sort_sorts\<close>), or that it returns rows that
  are already in order as they are (\<open>sort_keeps_sorted\<close>). Insertion sort
  (\<open>stable_sort\<close>) has all three. Insertion sort of the rows taken from the last to the
  first (\<open>rev_sort\<close>) permutes and sorts too, and puts rows with equal keys in the
  reverse of the order they had: it is a sort that the documentation of
  \<^verbatim>\<open>kind="quicksort"\<close> allows and that does not leave sorted rows in place.

  Cells are compared within their kind; a missing cell is greater than every other.
  A key column that mixes numbers, strings and dates cannot be compared and raises
  \<open>TypeError\<close>, so the order \<open>cell_le\<close> gives cells of different kinds is never
  used; it only makes the comparison total.
\<close>

type_synonym sort_kind = "(row \<Rightarrow> row \<Rightarrow> bool) \<Rightarrow> row list \<Rightarrow> row list"

fun kind_rank :: "cell \<Rightarrow> nat" where
  "kind_rank (Num x) = 0"
| "kind_rank (Str s) = 1"
| "kind_rank (Dt d) = 2"
| "kind_rank Null = 3"

fun cell_le :: "cell \<Rightarrow> cell \<Rightarrow> bool" where
  "cell_le (Num x) (Num y) = (x \<le> y)"
| "cell_le (Str x) (Str y) = (x \<le> y)"
| "cell_le (Dt x) (Dt y) = (x \<le> y)"
| "cell_le a b = (kind_rank a \<le> kind_rank b)"

definition cell_lt :: "cell \<Rightarrow> cell \<Rightarrow> bool" where
  "cell_lt a b = (\<not> cell_le b a)"

fun keys_le :: "nat list \<Rightarrow> row \<Rightarrow> row \<Rightarrow> bool" where
  "keys_le [] a b = True"
| "keys_le (i # is) a b =
     (cell_lt (cell_at i a) (cell_at i b)
      \<or> (\<not> cell_lt (cell_at i b) (cell_at i a) \<and> keys_le is a b))"

definition sortable :: "cell list \<Rightarrow> bool" where
  "sortable cs =
     (list_all (\<lambda>c. kind_rank c = 0 \<or> c = Null) cs
      \<or> list_all (\<lambda>c. kind_rank c = 1 \<or> c = Null) cs
      \<or> list_all (\<lambda>c. kind_rank c = 2 \<or> c = Null) cs)"

definition sort_values :: "sort_kind \<Rightarrow> table \<Rightarrow> string list \<Rightarrow> error + table" where
  \<comment> \<open>\<^verbatim>\<open>df.sort_values(by)\<close>\<close>
  "sort_values kind t by =
     (case those (map (\<lambda>c. col_index c (cols t)) by) of
        None \<Rightarrow> Inl KeyError
      | Some is \<Rightarrow>
          if list_all (\<lambda>i. sortable (map (cell_at i) (rows t))) is
          then Inr (t\<lparr>rows := kind (keys_le is) (rows t)\<rparr>)
          else Inl TypeError)"

definition sort_permutes :: "sort_kind \<Rightarrow> bool" where
  "sort_permutes kind = (\<forall>le xs. mset (kind le xs) = mset xs)"



fun insort_by :: "('a \<Rightarrow> 'a \<Rightarrow> bool) \<Rightarrow> 'a \<Rightarrow> 'a list \<Rightarrow> 'a list" where
  "insort_by le x [] = [x]"
| "insort_by le x (y # ys) = (if le x y then x # y # ys else y # insort_by le x ys)"

definition stable_sort :: "('a \<Rightarrow> 'a \<Rightarrow> bool) \<Rightarrow> 'a list \<Rightarrow> 'a list" where
  "stable_sort le xs = foldr (insort_by le) xs []"


section \<open>Partitioner\<close>

definition dropna :: "cell list \<Rightarrow> cell list" where
  "dropna cs = filter (\<lambda>c. c \<noteq> Null) cs"

definition unique :: "'a list \<Rightarrow> 'a list" where
  \<comment> \<open>\<^verbatim>\<open>Series.unique()\<close>: the distinct values, in order of first appearance\<close>
  "unique xs = rev (remdups (rev xs))"

fun the_num :: "cell \<Rightarrow> real" where
  "the_num (Num x) = x"
| "the_num c = 0"

fun the_str :: "cell \<Rightarrow> string" where
  "the_str (Str s) = s"
| "the_str c = []"

fun the_dt :: "cell \<Rightarrow> date" where
  "the_dt (Dt d) = d"
| "the_dt c = (0, 0, 0)"

definition py_sorted :: "cell list \<Rightarrow> error + cell list" where
  \<comment> \<open>Python's \<^verbatim>\<open>sorted\<close> on a list without missing values: values of one kind are
      ordered, values of different kinds raise \<^verbatim>\<open>TypeError\<close> when compared\<close>
  "py_sorted cs =
     (if list_all (\<lambda>c. kind_rank c = 1) cs then Inr (map Str (sort (map the_str cs)))
      else if list_all (\<lambda>c. kind_rank c = 0) cs then Inr (map Num (sort (map the_num cs)))
      else if list_all (\<lambda>c. kind_rank c = 2) cs then Inr (map Dt (sort (map the_dt cs)))
      else if list_ex (\<lambda>c. c = Null) cs then Inl Unmodelled
      else Inl TypeError)"

definition get_region_names :: "table \<Rightarrow> string \<Rightarrow> bool \<Rightarrow> error + cell list" where
  "get_region_names df region_col sort_flag =
     (case column df region_col of
        Inl e \<Rightarrow> Inl e
      | Inr cs \<Rightarrow>
          (let regions = unique (dropna cs)
           in if sort_flag then py_sorted regions else Inr regions))"

definition cell_eq :: "cell \<Rightarrow> cell \<Rightarrow> bool" where
  \<comment> \<open>elementwise \<^verbatim>\<open>==\<close>: a missing value equals nothing\<close>
  "cell_eq a b = (a \<noteq> Null \<and> a = b)"

definition select_rows :: "table \<Rightarrow> string \<Rightarrow> cell \<Rightarrow> error + table" where
  \<comment> \<open>\<^verbatim>\<open>df[df[c] == v].copy()\<close>\<close>
  "select_rows df c v =
     (case col_index c (cols df) of
        None \<Rightarrow> Inl KeyError
      | Some i \<Rightarrow> Inr (df\<lparr>rows := filter (\<lambda>r. cell_eq (cell_at i r) v) (rows df)\<rparr>))"

definition dict_set :: "('k \<times> 'v) list \<Rightarrow> 'k \<Rightarrow> 'v \<Rightarrow> ('k \<times> 'v) list" where
  \<comment> \<open>\<^verbatim>\<open>d[k] = v\<close> on a dictionary kept as the list of its items in insertion order\<close>
  "dict_set d k v =
     (if k \<in> set (map fst d) then map (\<lambda>(k', v'). if k' = k then (k', v) else (k', v')) d
      else d @ [(k, v)])"

definition region_table :: "sort_kind \<Rightarrow> table \<Rightarrow> string \<Rightarrow> bool \<Rightarrow> cell \<Rightarrow> error + table" where
  \<comment> \<open>the body of the loop of \<^verbatim>\<open>split_by_region\<close>: the value of \<^verbatim>\<open>temp_df\<close> at its end\<close>
  "region_table kind df region_col drop_region_col region =
     (case select_rows df region_col region of
        Inl e \<Rightarrow> Inl e
      | Inr temp_df \<Rightarrow>
          (case sort_values kind temp_df [''Year'', ''Month''] of
             Inl e \<Rightarrow> Inl e
           | Inr temp_df \<Rightarrow>
               if drop_region_col then drop_column temp_df region_col else Inr temp_df))"

fun split_loop ::
  "sort_kind \<Rightarrow> table \<Rightarrow> string \<Rightarrow> bool \<Rightarrow> cell list \<Rightarrow> (cell \<times> table) list
     \<Rightarrow> error + (cell \<times> table) list" where
  "split_loop kind df region_col drop_region_col [] region_dfs = Inr region_dfs"
| "split_loop kind df region_col drop_region_col (region # region_names) region_dfs =
     (case region_table kind df region_col drop_region_col region of
        Inl e \<Rightarrow> Inl e
      | Inr temp_df \<Rightarrow>
          split_loop kind df region_col drop_region_col region_names
            (dict_set region_dfs region temp_df))"

definition split_by_region ::
  "sort_kind \<Rightarrow> table \<Rightarrow> string \<Rightarrow> bool \<Rightarrow> error + (cell \<times> table) list" where
  "split_by_region kind df region_col drop_region_col =
     (case get_region_names df region_col True of
        Inl e \<Rightarrow> Inl e
      | Inr region_names \<Rightarrow> split_loop kind df region_col drop_region_col region_names [])"

definition row_count :: "table \<Rightarrow> nat" where
  "row_count t = length (rows t)"

section \<open>Date synthesizer\<close>

text \<open>
  \<^verbatim>\<open>astype(int)\<close> truncates a number toward zero and raises \<^verbatim>\<open>ValueError\<close> on a
  missing value (pandas: "Cannot convert non-finite values (NA or inf) to integer").
  The integers have 64 bits: what the cast makes of a number beyond their range is
  not modelled.
  \<^verbatim>\<open>astype(str)\<close> of an integer is its decimal numeral. Year and Month columns that
  hold strings or dates are outside the model.
\<close>

definition trunc :: "real \<Rightarrow> int" where
  "trunc x = (if 0 \<le> x then \<lfloor>x\<rfloor> else \<lceil>x\<rceil>)"

fun astype_int :: "cell \<Rightarrow> error + int" where
  "astype_int (Num x) =
     (if - (2 ^ 63) \<le> trunc x \<and> trunc x < 2 ^ 63 then Inr (trunc x) else Inl Unmodelled)"
| "astype_int Null = Inl ValueError"
| "astype_int (Str s) = Inl Unmodelled"
| "astype_int (Dt d) = Inl Unmodelled"

definition castable :: "cell \<Rightarrow> bool" where
  \<comment> \<open>\<^verbatim>\<open>astype(int)\<close> does not raise on the value\<close>
  "castable c = (\<not> isl (astype_int c))"

definition cast_int :: "cell \<Rightarrow> int" where
  \<comment> \<open>the integer \<^verbatim>\<open>astype(int)\<close> makes of a castable value\<close>
  "cast_int c = projr (astype_int c)"

fun collect :: "(error + 'a) list \<Rightarrow> error + 'a list" where
  \<comment> \<open>an elementwise operation on a column: the first exception ends it\<close>
  "collect [] = Inr []"
| "collect (Inl e # xs) = Inl e"
| "collect (Inr x # xs) = (case collect xs of Inl e \<Rightarrow> Inl e | Inr ys \<Rightarrow> Inr (x # ys))"

definition digit_char :: "nat \<Rightarrow> char" where
  "digit_char d = char_of (48 + d)"

fun digits_of :: "nat \<Rightarrow> string" where
  "digits_of n = (if n < 10 then [digit_char n] else digits_of (n div 10) @ [digit_char (n mod 10)])"

declare digits_of.simps [simp del]

definition str_int :: "int \<Rightarrow> string" where
  \<comment> \<open>\<^verbatim>\<open>str(i)\<close>\<close>
  "str_int i = (if i < 0 then CHR ''-'' # digits_of (nat (- i)) else digits_of (nat i))"

definition date_strings :: "table \<Rightarrow> string \<Rightarrow> string \<Rightarrow> error + string list" where
  \<comment> \<open>\<^verbatim>\<open>df[year_col].astype(int).astype(str) + "-" + df[month_col].astype(int).astype(str) + "-01"\<close>\<close>
  "date_strings df year_col month_col =
     (case column df year_col of
        Inl e \<Rightarrow> Inl e
      | Inr ys \<Rightarrow>
          (case collect (map astype_int ys) of
             Inl e \<Rightarrow> Inl e
           | Inr years \<Rightarrow>
               (case column df month_col of
                  Inl e \<Rightarrow> Inl e
                | Inr ms \<Rightarrow>
                    (case collect (map astype_int ms) of
                       Inl e \<Rightarrow> Inl e
                     | Inr months \<Rightarrow>
                         Inr (map2 (\<lambda>y m. str_int y @ ''-'' @ str_int m @ ''-01'') years months)))))"

text \<open>
  \<^verbatim>\<open>pd.to_datetime\<close> leaves timestamps and missing values as they are and parses
  strings. It infers one format for the column from the first value that is not
  missing, and every string of the column has to match that format: a string that
  does not raises \<^verbatim>\<open>ValueError\<close>. Two formats are modelled, those of the strings
  \<^verbatim>\<open>add_date_column\<close> builds from a four-digit year: year-month-day
  (\<^verbatim>\<open>%Y-%m-%d\<close>, as in 2023-2-01), and the same with two dashes before the month
  (\<^verbatim>\<open>%Y--%m-%d\<close>, as in 2023--2-01, which a month of -2 gives: the parser takes
  the second dash for a separator, and the date is 2023-02-01). The year is four
  digits, from 1000 to 9999, the month and the day one or two digits; the string is
  a date when the month and the day exist, and raises \<^verbatim>\<open>ValueError\<close> when they do
  not. A timestamp holds every such date. What pandas does with any other string (a
  year of fewer or more digits, a sign before the year, another format) is not
  decided here: the model answers \<open>Unmodelled\<close>, and no theorem below speaks of
  such a column. Numbers (epoch offsets) are outside the model too.
\<close>

definition is_digit :: "char \<Rightarrow> bool" where
  "is_digit c = (let n = (of_char c :: nat) in 48 \<le> n \<and> n \<le> 57)"

definition digit_val :: "char \<Rightarrow> nat" where
  "digit_val c = of_char c - 48"

definition parse_nat :: "string \<Rightarrow> nat option" where
  "parse_nat s =
     (if s \<noteq> [] \<and> list_all is_digit s then Some (foldl (\<lambda>a c. 10 * a + digit_val c) 0 s)
      else None)"

fun split_on :: "char \<Rightarrow> string \<Rightarrow> string list" where
  \<comment> \<open>\<^verbatim>\<open>s.split(c)\<close>\<close>
  "split_on c [] = [[]]"
| "split_on c (x # xs) =
     (if x = c then [] # split_on c xs
      else (case split_on c xs of w # ws \<Rightarrow> (x # w) # ws | [] \<Rightarrow> [[x]]))"

definition leap_year :: "int \<Rightarrow> bool" where
  "leap_year y = (y mod 4 = 0 \<and> (y mod 100 \<noteq> 0 \<or> y mod 400 = 0))"

definition days_in_month :: "int \<Rightarrow> int \<Rightarrow> int" where
  "days_in_month y m =
     (if m = 2 then (if leap_year y then 29 else 28)
      else if m = 4 \<or> m = 6 \<or> m = 9 \<or> m = 11 then 30 else 31)"

definition valid_date :: "date \<Rightarrow> bool" where
  \<comment> \<open>the month and the day exist\<close>
  "valid_date dt =
     (case dt of (y, m, d) \<Rightarrow> 1 \<le> m \<and> m \<le> 12 \<and> 1 \<le> d \<and> d \<le> days_in_month y m)"

datatype date_format = Y_m_d | Y_dash_m_d

definition date_fields :: "string \<Rightarrow> (date_format \<times> string \<times> string \<times> string) option" where
  \<comment> \<open>the format of a string and its year, month and day fields\<close>
  "date_fields s =
     (case split_on (CHR ''-'') s of
        [ys, ms, ds] \<Rightarrow> Some (Y_m_d, ys, ms, ds)
      | [ys, e, ms, ds] \<Rightarrow> if e = [] then Some (Y_dash_m_d, ys, ms, ds) else None
      | _ \<Rightarrow> None)"

definition guess_format :: "string \<Rightarrow> date_format option" where
  "guess_format s = map_option fst (date_fields s)"

definition parse_date :: "date_format \<Rightarrow> string \<Rightarrow> error + date" where
  \<comment> \<open>a string parsed with the format of its column\<close>
  "parse_date f s =
     (case date_fields s of
        None \<Rightarrow> Inl Unmodelled
      | Some (g, ys, ms, ds) \<Rightarrow>
          (case (parse_nat ys, parse_nat ms, parse_nat ds) of
             (Some y, Some m, Some d) \<Rightarrow>
               if length ys = 4 \<and> 1000 \<le> y
               then (if g = f \<and> length ms \<le> 2 \<and> length ds \<le> 2 \<and> valid_date (int y, int m, int d)
                     then Inr (int y, int m, int d)
                     else Inl ValueError)
               else Inl Unmodelled
           | _ \<Rightarrow> Inl Unmodelled))"

fun to_datetime_cell :: "date_format option \<Rightarrow> cell \<Rightarrow> error + cell" where
  "to_datetime_cell f (Dt d) = Inr (Dt d)"
| "to_datetime_cell f Null = Inr Null"
| "to_datetime_cell f (Str s) =
     (case f of None \<Rightarrow> Inl Unmodelled | Some g \<Rightarrow> map_sum id Dt (parse_date g s))"
| "to_datetime_cell f (Num x) = Inl Unmodelled"

definition column_format :: "cell list \<Rightarrow> date_format option" where
  \<comment> \<open>the format inferred from the first value that is not missing\<close>
  "column_format cs = (case filter (\<lambda>c. c \<noteq> Null) cs of Str s # rest \<Rightarrow> guess_format s | _ \<Rightarrow> None)"

definition to_datetime :: "cell list \<Rightarrow> error + cell list" where
  "to_datetime cs = collect (map (to_datetime_cell (column_format cs)) cs)"

definition calendar_month :: "int \<Rightarrow> int \<Rightarrow> bool" where
  \<comment> \<open>a month of a four-digit year\<close>
  "calendar_month y m = (1000 \<le> y \<and> y \<le> 9999 \<and> 1 \<le> m \<and> m \<le> 12)"

text \<open>
  \<^verbatim>\<open>_prepare_ts_df\<close> assigns to a column of the DataFrame it was given, so the
  DataFrames are objects in a heap: a list of tables, a reference being a position in
  it. \<^verbatim>\<open>df.copy()\<close> and \<^verbatim>\<open>sort_values(...).reset_index(drop=True)\<close> allocate a new
  object; \<^verbatim>\<open>df[c] = ...\<close> updates the object the reference points to. Each function
  returns the heap it leaves and the reference it returns. Every exception below is
  raised before the first assignment to an object the caller can reach, so the heap
  is not returned with an exception.
\<close>

type_synonym ref = nat

type_synonym heap = "table list"

definition df_copy :: "heap \<Rightarrow> ref \<Rightarrow> heap \<times> ref" where
  "df_copy h df = (h @ [h ! df], length h)"

definition add_date_column ::
  "heap \<Rightarrow> ref \<Rightarrow> string \<Rightarrow> string \<Rightarrow> string \<Rightarrow> error + heap \<times> ref" where
  "add_date_column h df year_col month_col date_col =
     (case df_copy h df of
        (h1, df1) \<Rightarrow>
          (case date_strings (h1 ! df1) year_col month_col of
             Inl e \<Rightarrow> Inl e
           | Inr strs \<Rightarrow>
               (case to_datetime (map Str strs) of
                  Inl e \<Rightarrow> Inl e
                | Inr dates \<Rightarrow> Inr (h1[df1 := setitem (h1 ! df1) date_col dates], df1))))"

definition prepare_ts_df :: "sort_kind \<Rightarrow> heap \<Rightarrow> ref \<Rightarrow> string \<Rightarrow> error + heap \<times> ref" where
  \<comment> \<open>\<^verbatim>\<open>_prepare_ts_df\<close>\<close>
  "prepare_ts_df kind h df date_col =
     (case (if date_col \<notin> set (cols (h ! df))
            then add_date_column h df ''Year'' ''Month'' date_col
            else Inr (h, df)) of
        Inl e \<Rightarrow> Inl e
      | Inr (h1, df1) \<Rightarrow>
          (case column (h1 ! df1) date_col of
             Inl e \<Rightarrow> Inl e
           | Inr cs \<Rightarrow>
               (case to_datetime cs of
                  Inl e \<Rightarrow> Inl e
                | Inr dates \<Rightarrow>
                    (let h2 = h1[df1 := setitem (h1 ! df1) date_col dates]
                     in case sort_values kind (h2 ! df1) [date_col] of
                          Inl e \<Rightarrow> Inl e
                        | Inr sorted_df \<Rightarrow> Inr (h2 @ [sorted_df], length h2)))))"

definition date_cells :: "table \<Rightarrow> string \<Rightarrow> error + cell list" where
  \<comment> \<open>the date of every row of a table, in row order: its date column converted by
      \<^verbatim>\<open>pd.to_datetime\<close>, or built from Year and Month when it has no date column\<close>
  "date_cells t date_col =
     (if date_col \<in> set (cols t)
      then (case column t date_col of Inl e \<Rightarrow> Inl e | Inr cs \<Rightarrow> to_datetime cs)
      else (case date_strings t ''Year'' ''Month'' of
              Inl e \<Rightarrow> Inl e
            | Inr strs \<Rightarrow> to_datetime (map Str strs)))"

section \<open>Aggregator\<close>

text \<open>
  \<^verbatim>\<open>df.groupby(date_col)[value_cols]\<close> followed by \<^verbatim>\<open>sum()\<close> or \<^verbatim>\<open>mean()\<close>: the
  group keys are the distinct dates of the key column in ascending order (rows with a
  missing key are left out), and each value column is reduced over the rows of a
  group, missing values skipped: the sum of none is 0, the mean of none is missing.
  The result is the list of (key, reduced values) in key order; a Series is the case
  of one value column. Value columns that hold strings or dates are outside the
  model.
\<close>

fun dates_of :: "cell list \<Rightarrow> date list" where
  "dates_of [] = []"
| "dates_of (Dt d # cs) = d # dates_of cs"
| "dates_of (c # cs) = dates_of cs"

definition group_keys :: "cell list \<Rightarrow> date list" where
  "group_keys ks = sorted_list_of_set (set (dates_of ks))"

definition numeric :: "cell list \<Rightarrow> bool" where
  "numeric cs = list_all (\<lambda>c. kind_rank c = 0 \<or> c = Null) cs"

definition datelike :: "cell list \<Rightarrow> bool" where
  "datelike cs = list_all (\<lambda>c. kind_rank c = 2 \<or> c = Null) cs"

definition agg_sum :: "cell list \<Rightarrow> cell" where
  "agg_sum cs = Num (sum_list (map the_num (dropna cs)))"

definition agg_mean :: "cell list \<Rightarrow> cell" where
  "agg_mean cs =
     (let xs = dropna cs
      in if xs = [] then Null else Num (sum_list (map the_num xs) / real (length xs)))"

definition mset_invariant :: "(cell list \<Rightarrow> cell) \<Rightarrow> bool" where
  \<comment> \<open>a reduction that does not depend on the order of the values\<close>
  "mset_invariant agg = (\<forall>xs ys. mset xs = mset ys \<longrightarrow> agg xs = agg ys)"

definition groupby_agg ::
  "(cell list \<Rightarrow> cell) \<Rightarrow> table \<Rightarrow> string \<Rightarrow> string list \<Rightarrow> error + (date \<times> cell list) list" where
  "groupby_agg agg t date_col value_cols =
     (case col_index date_col (cols t) of
        None \<Rightarrow> Inl KeyError
      | Some i \<Rightarrow>
          (case those (map (\<lambda>c. col_index c (cols t)) value_cols) of
             None \<Rightarrow> Inl KeyError
           | Some js \<Rightarrow>
               if datelike (map (cell_at i) (rows t))
                  \<and> list_all (\<lambda>j. numeric (map (cell_at j) (rows t))) js
               then Inr (map (\<lambda>d. (d, map (\<lambda>j. agg (map (cell_at j)
                                    (filter (\<lambda>r. cell_at i r = Dt d) (rows t)))) js))
                          (group_keys (map (cell_at i) (rows t))))
               else Inl Unmodelled))"

definition date_analysis ::
  "(cell list \<Rightarrow> cell) \<Rightarrow> string list \<Rightarrow> sort_kind \<Rightarrow> heap \<Rightarrow> ref \<Rightarrow> string
     \<Rightarrow> error + heap \<times> (date \<times> cell list) list" where
  \<comment> \<open>the two statements that open five of the \<^verbatim>\<open>plot_*\<close> functions:
      \<^verbatim>\<open>df = _prepare_ts_df(df, date_col=date_col)\<close>, then the group-by\<close>
  "date_analysis agg value_cols kind h df date_col =
     (case prepare_ts_df kind h df date_col of
        Inl e \<Rightarrow> Inl e
      | Inr (h1, df1) \<Rightarrow>
          (case groupby_agg agg (h1 ! df1) date_col value_cols of
             Inl e \<Rightarrow> Inl e
           | Inr monthly \<Rightarrow> Inr (h1, monthly)))"

text \<open>
  The data each \<^verbatim>\<open>plot_*\<close> function computes (what it returns beside the axes under
  \<^verbatim>\<open>return_data=True\<close>), with the heap the call leaves.
\<close>

definition plot_monthly_deliveries ::
  "sort_kind \<Rightarrow> heap \<Rightarrow> ref \<Rightarrow> string \<Rightarrow> error + heap \<times> (date \<times> cell list) list" where
  "plot_monthly_deliveries = date_analysis agg_sum [''Estimated_Deliveries'']"

definition plot_production_vs_deliveries ::
  "sort_kind \<Rightarrow> heap \<Rightarrow> ref \<Rightarrow> string \<Rightarrow> error + heap \<times> (date \<times> cell list) list" where
  "plot_production_vs_deliveries = date_analysis agg_sum [''Estimated_Deliveries'', ''Production_Units'']"

definition plot_avg_price_ts ::
  "sort_kind \<Rightarrow> heap \<Rightarrow> ref \<Rightarrow> string \<Rightarrow> error + heap \<times> (date \<times> cell list) list" where
  "plot_avg_price_ts = date_analysis agg_mean [''Avg_Price_USD'']"

definition plot_battery_and_range_ts ::
  "sort_kind \<Rightarrow> heap \<Rightarrow> ref \<Rightarrow> string \<Rightarrow> error + heap \<times> (date \<times> cell list) list" where
  "plot_battery_and_range_ts = date_analysis agg_mean [''Battery_Capacity_kWh'', ''Range_km'']"

definition plot_infra_vs_sales_ts ::
  "sort_kind \<Rightarrow> heap \<Rightarrow> ref \<Rightarrow> string \<Rightarrow> error + heap \<times> (date \<times> cell list) list" where
  "plot_infra_vs_sales_ts = date_analysis agg_sum [''Estimated_Deliveries'', ''Charging_Stations'']"

text \<open>
  The model-share analysis groups by (date, Model), sums the deliveries, pivots the
  models into columns with 0.0 for a combination that does not occur, and divides
  each row by its sum. Rows whose date or Model is missing are in no group. Model
  columns that hold numbers or dates are outside the model.

  The row sum and the division are those of double-precision floating point. A
  double is a real number, an infinity or NaN. The sum of a row
  (\<^verbatim>\<open>pivot.sum(axis=1)\<close>) and the quotient of two numbers, the divisor not zero, are
  rounded, and in which order the sum is taken is decided inside numpy: both are
  parameters of the model, the fields \<open>fsum\<close> and \<open>fquot\<close> of the arithmetic \<open>fp\<close>.
  What is not rounded is written out: a number divided by zero is NaN when it is
  zero and an infinity of its sign when it is not, a number divided by an infinity
  is zero, and NaN divided into anything is NaN; none of these raises. The sign of a
  zero is not modelled.

  What a theorem needs of the arithmetic is stated as its hypothesis, in the usual
  form of a rounding error analysis: the quotient is a number within a relative
  error \<open>u\<close> and an absolute error \<open>eta\<close> of the exact quotient (\<open>quot_accurate\<close>; for
  doubles, \<open>u\<close> is 2 to the -53 and \<open>eta\<close>, the error of an underflow, 2 to the
  -1075, when the quotient does not overflow), and the sum of a row is a number
  within \<open>g\<close> times the sum of the absolute values of the exact sum (\<open>sum_accurate\<close>;
  for doubles and a row of n numbers, in any order of summation, \<open>g\<close> is about n - 1
  times 2 to the -53, when the sum does not overflow).
\<close>

datatype fval = Fin real | PosInf | NegInf | NaN

fun the_fin :: "fval \<Rightarrow> real" where
  "the_fin (Fin x) = x"
| "the_fin v = 0"

fun is_fin :: "fval \<Rightarrow> bool" where
  "is_fin (Fin x) = True"
| "is_fin v = False"

record fpu =
  fsum :: "real list \<Rightarrow> fval"
  fquot :: "real \<Rightarrow> real \<Rightarrow> fval"

definition zero_share :: "real \<Rightarrow> fval" where
  \<comment> \<open>a total divided by a row sum of zero\<close>
  "zero_share x = (if x = 0 then NaN else if 0 < x then PosInf else NegInf)"

definition fdiv :: "fpu \<Rightarrow> real \<Rightarrow> fval \<Rightarrow> fval" where
  \<comment> \<open>a total divided by the sum of its row\<close>
  "fdiv fp x s =
     (case s of
        Fin y \<Rightarrow> if y \<noteq> 0 then fquot fp x y else zero_share x
      | PosInf \<Rightarrow> Fin 0
      | NegInf \<Rightarrow> Fin 0
      | NaN \<Rightarrow> NaN)"

definition share_row :: "fpu \<Rightarrow> real list \<Rightarrow> fval list" where
  \<comment> \<open>one row of \<^verbatim>\<open>pivot.div(pivot.sum(axis=1), axis=0)\<close>\<close>
  "share_row fp xs = map (\<lambda>x. fdiv fp x (fsum fp xs)) xs"

definition quot_accurate :: "fpu \<Rightarrow> real \<Rightarrow> real \<Rightarrow> real \<Rightarrow> real \<Rightarrow> bool" where
  "quot_accurate fp u eta x y =
     (case fquot fp x y of Fin q \<Rightarrow> \<bar>q - x / y\<bar> \<le> u * \<bar>x / y\<bar> + eta | _ \<Rightarrow> False)"

definition sum_accurate :: "fpu \<Rightarrow> real \<Rightarrow> real list \<Rightarrow> bool" where
  "sum_accurate fp g xs =
     (case fsum fp xs of Fin s \<Rightarrow> \<bar>s - sum_list xs\<bar> \<le> g * (\<Sum>x\<leftarrow>xs. \<bar>x\<bar>) | _ \<Rightarrow> False)"

definition exact_fp :: fpu where
  \<comment> \<open>an arithmetic that rounds nothing: that of doubles wherever the sum and the
      quotients are doubles, as they are for the totals 0, 0 and 1, 3 of the examples\<close>
  "exact_fp = \<lparr>fsum = (\<lambda>xs. Fin (sum_list xs)), fquot = (\<lambda>x y. Fin (x / y))\<rparr>"

definition model_pivot :: "table \<Rightarrow> string \<Rightarrow> error + string list \<times> (date \<times> real list) list" where
  \<comment> \<open>\<^verbatim>\<open>df.groupby([date_col, "Model"])["Estimated_Deliveries"].sum().unstack("Model").fillna(0.0)\<close>:
      the model names (the columns) and the rows\<close>
  "model_pivot t date_col =
     (case col_index date_col (cols t) of
        None \<Rightarrow> Inl KeyError
      | Some i \<Rightarrow>
          (case col_index ''Model'' (cols t) of
             None \<Rightarrow> Inl KeyError
           | Some m \<Rightarrow>
               (case col_index ''Estimated_Deliveries'' (cols t) of
                  None \<Rightarrow> Inl KeyError
                | Some j \<Rightarrow>
                    if datelike (map (cell_at i) (rows t))
                       \<and> list_all (\<lambda>c. kind_rank c = 1 \<or> c = Null) (map (cell_at m) (rows t))
                       \<and> numeric (map (cell_at j) (rows t))
                    then
                      (let grouped = filter (\<lambda>r. cell_at i r \<noteq> Null \<and> cell_at m r \<noteq> Null) (rows t);
                           dates = group_keys (map (cell_at i) grouped);
                           models = sorted_list_of_set (set (map (\<lambda>r. the_str (cell_at m r)) grouped))
                       in Inr (models,
                            map (\<lambda>d. (d, map (\<lambda>mo. sum_list (map (\<lambda>r. the_num (cell_at j r))
                                            (filter (\<lambda>r. cell_at i r = Dt d \<and> cell_at m r = Str mo) grouped)))
                                          models))
                              dates))
                    else Inl Unmodelled)))"

definition model_pivot_ts ::
  "sort_kind \<Rightarrow> heap \<Rightarrow> ref \<Rightarrow> string \<Rightarrow> error + heap \<times> string list \<times> (date \<times> real list) list" where
  \<comment> \<open>the value of \<^verbatim>\<open>pivot\<close> in \<^verbatim>\<open>plot_model_share_ts\<close>\<close>
  "model_pivot_ts kind h df date_col =
     (case prepare_ts_df kind h df date_col of
        Inl e \<Rightarrow> Inl e
      | Inr (h1, df1) \<Rightarrow>
          (case model_pivot (h1 ! df1) date_col of
             Inl e \<Rightarrow> Inl e
           | Inr (models, pivot) \<Rightarrow> Inr (h1, models, pivot)))"

definition plot_model_share_ts ::
  "fpu \<Rightarrow> sort_kind \<Rightarrow> heap \<Rightarrow> ref \<Rightarrow> string \<Rightarrow> error + heap \<times> string list \<times> (date \<times> fval list) list" where
  \<comment> \<open>the value of \<^verbatim>\<open>share\<close>\<close>
  "plot_model_share_ts fp kind h df date_col =
     (case model_pivot_ts kind h df date_col of
        Inl e \<Rightarrow> Inl e
      | Inr (h1, models, pivot) \<Rightarrow> Inr (h1, models, map (\<lambda>(d, xs). (d, share_row fp xs)) pivot))"

definition cell_of :: "table \<Rightarrow> string \<Rightarrow> row \<Rightarrow> cell" where
  \<comment> \<open>the value a row of the table has in a column\<close>
  "cell_of t c r = (case col_index c (cols t) of Some i \<Rightarrow> cell_at i r | None \<Rightarrow> Null)"

definition model_dates :: "table \<Rightarrow> string \<Rightarrow> date list" where
  \<comment> \<open>the dates of the rows whose Model is not missing\<close>
  "model_dates t date_col =
     dates_of (map (cell_of t date_col) (filter (\<lambda>r. cell_of t ''Model'' r \<noteq> Null) (rows t)))"

definition returned :: "error + heap \<times> 'a \<Rightarrow> error + 'a" where
  \<comment> \<open>what a call returns, without the heap\<close>
  "returned r = map_sum id snd r"

section \<open>Exporter\<close>

text \<open>
  The file system is the set of directories made and a map from paths to what was
  written there: a CSV file is the table written and the \<^verbatim>\<open>index\<close> flag it was
  written with. Failures of the environment (an unwritable directory) are not
  modelled. \<^verbatim>\<open>out_dir / name\<close> joins with a slash, and an absolute \<open>name\<close> replaces
  \<open>out_dir\<close>, as pathlib does; paths are not normalised. The keys of the dictionary
  are strings, as its annotation says, so \<^verbatim>\<open>str(region)\<close> is the key itself.
\<close>

type_synonym csv = "bool \<times> table"

record fs =
  dirs :: "string set"
  files :: "string \<rightharpoonup> csv"

definition mkdir :: "fs \<Rightarrow> string \<Rightarrow> fs" where
  \<comment> \<open>\<^verbatim>\<open>out_dir.mkdir(parents=True, exist_ok=True)\<close>\<close>
  "mkdir s d = s\<lparr>dirs := insert d (dirs s)\<rparr>"

definition to_csv :: "fs \<Rightarrow> string \<Rightarrow> bool \<Rightarrow> table \<Rightarrow> fs" where
  \<comment> \<open>\<^verbatim>\<open>rdf.to_csv(out_path, index=index)\<close>\<close>
  "to_csv s p index rdf = s\<lparr>files := (files s)(p \<mapsto> (index, rdf))\<rparr>"

definition path_join :: "string \<Rightarrow> string \<Rightarrow> string" where
  "path_join d name = (if name \<noteq> [] \<and> hd name = CHR ''/'' then name else d @ ''/'' @ name)"

definition sanitize :: "string \<Rightarrow> string" where
  \<comment> \<open>\<^verbatim>\<open>str(region).strip().lower().replace(" ", "_").replace("/", "_")\<close>\<close>
  "sanitize region =
     py_replace (CHR ''/'') (CHR ''_'') (py_replace (CHR '' '') (CHR ''_'') (py_lower (py_strip region)))"

text \<open>
  The loop of \<^verbatim>\<open>save_region_dfs\<close> only binds \<^verbatim>\<open>safe_region\<close> (and the loop variable
  \<^verbatim>\<open>rdf\<close>); the two statements that build the path and write the file stand after
  the loop, at the function's indentation. The loop's state is the pair of the two
  variables, unbound (\<open>None\<close>) before the first iteration. The dictionary is the list
  of its items in iteration order.
\<close>

fun save_loop :: "(string \<times> table) list \<Rightarrow> (string \<times> table) option \<Rightarrow> (string \<times> table) option" where
  "save_loop [] bound = bound"
| "save_loop ((region, rdf) # items) bound = save_loop items (Some (sanitize region, rdf))"

definition save_region_dfs ::
  "(string \<times> table) list \<Rightarrow> string \<Rightarrow> string \<Rightarrow> bool \<Rightarrow> fs \<Rightarrow> error option \<times> fs" where
  \<comment> \<open>the exception raised, if any, and the file system the call leaves\<close>
  "save_region_dfs region_dfs out_dir prefix index s =
     (let s1 = mkdir s out_dir in
      case save_loop region_dfs None of
        None \<Rightarrow> (Some UnboundLocalError, s1)
      | Some (safe_region, rdf) \<Rightarrow>
          (None, to_csv s1 (path_join out_dir (prefix @ safe_region @ ''.csv'')) index rdf))"

definition empty_fs :: fs where
  "empty_fs = \<lparr>dirs = {}, files = Map.empty\<rparr>"

section \<open>Example tables\<close>

text \<open>
  The rows of the specification's scenario, (Year, Month, Region, Model, Deliveries,
  Production), and the same table with a fourth row whose Region is missing.
\<close>

definition scenario_table :: table where
  "scenario_table =
     \<lparr>cols = [''Year'', ''Month'', ''Region'', ''Model'', ''Estimated_Deliveries'', ''Production_Units''],
      rows = [[Num 2023, Num 1, Str ''US'', Str ''X'', Num 100, Num 120],
              [Num 2023, Num 1, Str ''EU'', Str ''X'', Num 50, Num 120],
              [Num 2023, Num 2, Str ''US'', Str ''X'', Num 80, Num 90]]\<rparr>"

definition missing_region_table :: table where
  "missing_region_table =
     \<lparr>cols = [''Year'', ''Month'', ''Region'', ''Model'', ''Estimated_Deliveries'', ''Production_Units''],
      rows = [[Num 2023, Num 1, Str ''US'', Str ''X'', Num 100, Num 120],
              [Num 2023, Num 1, Str ''EU'', Str ''X'', Num 50, Num 120],
              [Num 2023, Num 2, Str ''US'', Str ''X'', Num 80, Num 90],
              [Num 2023, Num 2, Null, Str ''X'', Num 7, Num 9]]\<rparr>"

definition scenario_parts :: "(cell \<times> table) list" where
  "scenario_parts =
     [(Str ''EU'',
       \<lparr>cols = [''Year'', ''Month'', ''Model'', ''Estimated_Deliveries'', ''Production_Units''],
        rows = [[Num 2023, Num 1, Str ''X'', Num 50, Num 120]]\<rparr>),
      (Str ''US'',
       \<lparr>cols = [''Year'', ''Month'', ''Model'', ''Estimated_Deliveries'', ''Production_Units''],
        rows = [[Num 2023, Num 1, Str ''X'', Num 100, Num 120],
                [Num 2023, Num 2, Str ''X'', Num 80, Num 90]]\<rparr>)]"

definition missing_region_parts :: "(cell \<times> table) list" where
  "missing_region_parts =
     [(Str ''EU'',
       \<lparr>cols = [''Year'', ''Month'', ''Region'', ''Model'', ''Estimated_Deliveries'', ''Production_Units''],
        rows = [[Num 2023, Num 1, Str ''EU'', Str ''X'', Num 50, Num 120]]\<rparr>),
      (Str ''US'',
       \<lparr>cols = [''Year'', ''Month'', ''Region'', ''Model'', ''Estimated_Deliveries'', ''Production_Units''],
        rows = [[Num 2023, Num 1, Str ''US'', Str ''X'', Num 100, Num 120],
                [Num 2023, Num 2, Str ''US'', Str ''X'', Num 80, Num 90]]\<rparr>)]"

text \<open>
  Two models with no deliveries in January 2023; a table whose Date column holds
  strings, as \<^verbatim>\<open>read_csv\<close> leaves it; a table with fractional Year and Month;
  a table with a negative fractional Month.
\<close>

definition zero_deliveries_table :: table where
  "zero_deliveries_table =
     \<lparr>cols = [''Year'', ''Month'', ''Model'', ''Estimated_Deliveries''],
      rows = [[Num 2023, Num 1, Str ''A'', Num 0],
              [Num 2023, Num 1, Str ''B'', Num 0]]\<rparr>"

definition string_date_table :: table where
  "string_date_table =
     \<lparr>cols = [''Date'', ''Estimated_Deliveries''],
      rows = [[Str ''2023-02-01'', Num 80],
              [Str ''2023-01-01'', Num 100]]\<rparr>"

definition fractional_table :: table where
  "fractional_table =
     \<lparr>cols = [''Year'', ''Month''],
      rows = [[Num 2023.7, Num 2.9],
              [Num 1600, Num 12]]\<rparr>"

definition negative_month_table :: table where
  "negative_month_table =
     \<lparr>cols = [''Year'', ''Month''],
      rows = [[Num 2023, Num (- 2.9)]]\<rparr>"

text \<open>
  Deliveries of two models in two months, none in the second month; deliveries in
  two months, with no Model recorded in the second.
\<close>

definition share_example_table :: table where
  "share_example_table =
     \<lparr>cols = [''Year'', ''Month'', ''Model'', ''Estimated_Deliveries''],
      rows = [[Num 2023, Num 1, Str ''A'', Num 1],
              [Num 2023, Num 2, Str ''B'', Num 0],
              [Num 2023, Num 1, Str ''B'', Num 3],
              [Num 2023, Num 2, Str ''A'', Num 0]]\<rparr>"

definition missing_model_table :: table where
  "missing_model_table =
     \<lparr>cols = [''Year'', ''Month'', ''Model'', ''Estimated_Deliveries''],
      rows = [[Num 2023, Num 1, Str ''A'', Num 10],
              [Num 2023, Num 2, Null, Num 5]]\<rparr>"




section \<open>Properties of the sort algorithms\<close>

lemma mset_insort_by: "mset (insort_by le x xs) = add_mset x (mset xs)"
  by (induction xs) auto

lemma mset_stable_sort: "mset (stable_sort le xs) = mset xs"
  by (induction xs) (auto simp: stable_sort_def mset_insort_by)





lemma stable_sort_permutes: "sort_permutes stable_sort"
  by (simp add: sort_permutes_def mset_stable_sort)





section \<open>Properties of the partitioner\<close>

lemma set_unique: "set (unique xs) = set xs"
  by (simp add: unique_def)

lemma distinct_unique: "distinct (unique xs)"
  by (simp add: unique_def)

lemma kind_rank_iff:
  "kind_rank c = 0 \<longleftrightarrow> (\<exists>x. c = Num x)"
  "kind_rank c = 1 \<longleftrightarrow> (\<exists>s. c = Str s)"
  "kind_rank c = 2 \<longleftrightarrow> (\<exists>d. c = Dt d)"
  "kind_rank c = 3 \<longleftrightarrow> c = Null"
  "kind_rank c = Suc 0 \<longleftrightarrow> (\<exists>s. c = Str s)"
  by (cases c; auto)+

lemma py_sorted_mset: "py_sorted cs = Inr names \<Longrightarrow> mset names = mset cs"
proof -
  have str: "list_all (\<lambda>c. kind_rank c = 1) cs \<Longrightarrow> map Str (map the_str cs) = cs" for cs
    by (induction cs) (auto simp: kind_rank_iff)
  have num: "list_all (\<lambda>c. kind_rank c = 0) cs \<Longrightarrow> map Num (map the_num cs) = cs" for cs
    by (induction cs) (auto simp: kind_rank_iff)
  have dt: "list_all (\<lambda>c. kind_rank c = 2) cs \<Longrightarrow> map Dt (map the_dt cs) = cs" for cs
    by (induction cs) (auto simp: kind_rank_iff)
  have m: "mset (map f (sort xs)) = mset (map f xs)" for f :: "'b::linorder \<Rightarrow> cell" and xs
    by (metis mset_map mset_sort)
  assume a: "py_sorted cs = Inr names"
  show ?thesis
  proof (cases "list_all (\<lambda>c. kind_rank c = 1) cs")
    case True
    with a have "names = map Str (sort (map the_str cs))" by (simp add: py_sorted_def)
    then have "mset names = mset (map Str (map the_str cs))" by (simp only: m)
    with str [OF True] show ?thesis by simp
  next
    case F1: False
    show ?thesis
    proof (cases "list_all (\<lambda>c. kind_rank c = 0) cs")
      case True
      with a F1 have "names = map Num (sort (map the_num cs))" by (simp add: py_sorted_def)
      then have "mset names = mset (map Num (map the_num cs))" by (simp only: m)
      with num [OF True] show ?thesis by simp
    next
      case F2: False
      show ?thesis
      proof (cases "list_all (\<lambda>c. kind_rank c = 2) cs")
        case True
        with a F1 F2 have "names = map Dt (sort (map the_dt cs))" by (simp add: py_sorted_def)
        then have "mset names = mset (map Dt (map the_dt cs))" by (simp only: m)
        with dt [OF True] show ?thesis by simp
      next
        case False
        with a F1 F2 show ?thesis by (simp add: py_sorted_def split: if_splits)
      qed
    qed
  qed
qed

lemma py_sorted_sorted: "py_sorted cs = Inr names \<Longrightarrow> sorted_wrt cell_le names"
proof -
  have s: "sorted_wrt cell_le (map Str xs) = sorted xs" for xs
    by (induction xs) auto
  have n: "sorted_wrt cell_le (map Num xs) = sorted xs" for xs
    by (induction xs) auto
  have d: "sorted_wrt cell_le (map Dt xs) = sorted xs" for xs
    by (induction xs) auto
  assume "py_sorted cs = Inr names"
  then show ?thesis
    by (auto simp: py_sorted_def s n d split: if_splits)
qed


lemma dict_set_new: "k \<notin> set (map fst d) \<Longrightarrow> dict_set d k v = d @ [(k, v)]"
  by (simp add: dict_set_def)

lemma split_loop_result:
  "split_loop kind df c d names acc = Inr parts \<Longrightarrow> distinct names
   \<Longrightarrow> set names \<inter> set (map fst acc) = {}
   \<Longrightarrow> \<exists>ps. parts = acc @ ps
         \<and> list_all2 (\<lambda>r p. fst p = r \<and> region_table kind df c d r = Inr (snd p)) names ps"
proof (induction names arbitrary: acc)
  case Nil
  then show ?case by simp
next
  case (Cons r names)
  from Cons.prems(1) obtain tb where tb: "region_table kind df c d r = Inr tb"
    and rest: "split_loop kind df c d names (dict_set acc r tb) = Inr parts"
    by (auto split: sum.splits)
  from Cons.prems(3) have new: "dict_set acc r tb = acc @ [(r, tb)]"
    by (intro dict_set_new) auto
  from Cons.prems(2,3) have "set names \<inter> set (map fst (acc @ [(r, tb)])) = {}"
    by auto
  with Cons.IH [of "acc @ [(r, tb)]"] rest new Cons.prems(2)
  obtain ps where "parts = (acc @ [(r, tb)]) @ ps"
    and "list_all2 (\<lambda>r p. fst p = r \<and> region_table kind df c d r = Inr (snd p)) names ps"
    by auto
  with tb show ?case
    by (intro exI [of _ "(r, tb) # ps"]) simp
qed

lemma col_index_Some_less: "col_index c xs = Some i \<Longrightarrow> i < length xs \<and> xs ! i = c"
  by (induction xs arbitrary: i) (auto split: if_splits)

lemma col_index_None_iff: "col_index c xs = None \<longleftrightarrow> c \<notin> set xs"
  by (induction xs) auto

lemma region_table_rows:
  assumes "sort_permutes kind" and "region_table kind df c d r = Inr tb"
    and "col_index c (cols df) = Some i"
  shows "mset (rows tb) =
     image_mset (\<lambda>row. if d then take i row @ drop (Suc i) row else row)
       (filter_mset (\<lambda>row. cell_eq (cell_at i row) r) (mset (rows df)))"
proof -
  let ?sel = "df\<lparr>rows := filter (\<lambda>row. cell_eq (cell_at i row) r) (rows df)\<rparr>"
  from assms(3) have sel: "select_rows df c r = Inr ?sel"
    by (simp add: select_rows_def)
  with assms(2) obtain srt where srt: "sort_values kind ?sel [''Year'', ''Month''] = Inr srt"
    and tb: "(if d then drop_column srt c else Inr srt) = Inr tb"
    by (auto simp: region_table_def split: sum.splits)
  from srt obtain idx where srt_eq: "srt = ?sel\<lparr>rows := kind (keys_le idx) (rows ?sel)\<rparr>"
    by (auto simp: sort_values_def split: option.splits if_splits)
  with assms(1) have m: "mset (rows srt) = mset (rows ?sel)"
    by (simp add: sort_permutes_def)
  from srt_eq have c: "cols srt = cols df" by simp
  show ?thesis
  proof (cases d)
    case True
    with tb c assms(3) have "rows tb = map (\<lambda>row. take i row @ drop (Suc i) row) (rows srt)"
      by (auto simp: drop_column_def)
    then have "mset (rows tb) = image_mset (\<lambda>row. take i row @ drop (Suc i) row) (mset (rows srt))"
      by simp
    with m True show ?thesis by simp
  next
    case False
    with tb have "tb = srt" by simp
    with m False show ?thesis by simp
  qed
qed

lemma count_one: "distinct ks \<Longrightarrow> (\<Sum>k\<leftarrow>ks. if a = k then 1 else 0) = (if a \<in> set ks then 1 else (0::nat))"
  by (induction ks) auto

lemma partition_count:
  assumes "distinct ks"
  shows "set ks \<supseteq> {f x |x. x \<in> set xs \<and> f x \<noteq> Null}
    \<Longrightarrow> (\<Sum>k\<leftarrow>ks. length (filter (\<lambda>x. cell_eq (f x) k) xs)) = length (filter (\<lambda>x. f x \<noteq> Null) xs)"
proof (induction xs)
  case Nil
  then show ?case by simp
next
  case (Cons x xs)
  have split: "(\<Sum>k\<leftarrow>ks. length (filter (\<lambda>x. cell_eq (f x) k) (x # xs)))
      = (\<Sum>k\<leftarrow>ks. if cell_eq (f x) k then 1 else 0) + (\<Sum>k\<leftarrow>ks. length (filter (\<lambda>x. cell_eq (f x) k) xs))"
    by (induction ks) auto
  have one: "(\<Sum>k\<leftarrow>ks. if cell_eq (f x) k then 1 else 0) = (if f x \<noteq> Null then 1 else (0::nat))"
  proof (cases "f x = Null")
    case True
    then show ?thesis by (simp add: cell_eq_def)
  next
    case False
    then have "(\<Sum>k\<leftarrow>ks. if cell_eq (f x) k then 1 else 0) = (\<Sum>k\<leftarrow>ks. if f x = k then 1 else (0::nat))"
      by (simp add: cell_eq_def)
    also have "\<dots> = (if f x \<in> set ks then 1 else 0)" by (rule count_one [OF assms])
    finally have "(\<Sum>k\<leftarrow>ks. if cell_eq (f x) k then 1 else 0) = (if f x \<in> set ks then 1 else (0::nat))" .
    moreover from False Cons.prems have "f x \<in> set ks" by auto
    ultimately show ?thesis using False by simp
  qed
  from Cons.prems have "set ks \<supseteq> {f x |x. x \<in> set xs \<and> f x \<noteq> Null}" by auto
  with Cons.IH split one show ?case by simp
qed

lemma get_region_names_props:
  assumes "get_region_names t c True = Inr names" and "col_index c (cols t) = Some i"
  shows "distinct names" and "set names = set (map (cell_at i) (rows t)) - {Null}"
    and "sorted_wrt cell_le names"
proof -
  let ?cs = "map (cell_at i) (rows t)"
  from assms have ps: "py_sorted (unique (dropna ?cs)) = Inr names"
    by (simp add: get_region_names_def column_def)
  from py_sorted_mset [OF ps] have m: "mset names = mset (unique (dropna ?cs))" .
  have "distinct (unique (dropna ?cs))" by (rule distinct_unique)
  with m show "distinct names" by (metis mset_eq_imp_distinct_iff)
  from m have "set names = set (unique (dropna ?cs))" by (metis set_mset_mset)
  then show "set names = set ?cs - {Null}"
    by (auto simp: set_unique dropna_def)
  from py_sorted_sorted [OF ps] show "sorted_wrt cell_le names" .
qed

lemma split_by_region_parts:
  assumes "split_by_region kind t c d = Inr parts"
  shows "get_region_names t c True = Inr (map fst parts)
    \<and> list_all (\<lambda>p. region_table kind t c d (fst p) = Inr (snd p)) parts"
proof -
  from assms obtain names where names: "get_region_names t c True = Inr names"
    and loop: "split_loop kind t c d names [] = Inr parts"
    by (auto simp: split_by_region_def split: sum.splits)
  from names have "\<exists>cs. names = unique cs \<or> py_sorted (unique cs) = Inr names"
    by (auto simp: get_region_names_def split: sum.splits)
  then have "distinct names"
    by (metis distinct_unique py_sorted_mset mset_eq_imp_distinct_iff)
  with split_loop_result [OF loop] have
    la: "list_all2 (\<lambda>r p. fst p = r \<and> region_table kind t c d r = Inr (snd p)) names parts"
    by auto
  then have "names = map fst parts"
    by (induction rule: list_all2_induct) auto
  moreover from la have "list_all (\<lambda>p. region_table kind t c d (fst p) = Inr (snd p)) parts"
    by (induction rule: list_all2_induct) auto
  ultimately show ?thesis using names by simp
qed

text \<open>
  C3, amended. The per-region tables hold the rows whose Region is not missing, no
  more: the sum of their row counts is the number of non-missing Region values, and
  it is the row count of the table when no Region value is missing.
\<close>

theorem split_by_region_row_counts:
  assumes perm: "sort_permutes kind"
    and split: "split_by_region kind t ''Region'' True = Inr parts"
    and col: "column t ''Region'' = Inr regions"
  shows "(\<Sum>p\<leftarrow>parts. row_count (snd p)) = length (dropna regions)
    \<and> (Null \<notin> set regions \<longrightarrow> (\<Sum>p\<leftarrow>parts. row_count (snd p)) = row_count t)"
proof -
  from col obtain i where i: "col_index ''Region'' (cols t) = Some i"
    and regions: "regions = map (cell_at i) (rows t)"
    by (auto simp: column_def split: option.splits)
  from split_by_region_parts [OF split]
  have names: "get_region_names t ''Region'' True = Inr (map fst parts)"
    and tabs: "list_all (\<lambda>p. region_table kind t ''Region'' True (fst p) = Inr (snd p)) parts"
    by auto
  have len: "row_count (snd p) = length (filter (\<lambda>row. cell_eq (cell_at i row) (fst p)) (rows t))"
    if "p \<in> set parts" for p
  proof -
    from that tabs have "region_table kind t ''Region'' True (fst p) = Inr (snd p)"
      by (simp add: list_all_iff)
    from region_table_rows [OF perm this i]
    have "size (mset (rows (snd p))) = size (filter_mset (\<lambda>row. cell_eq (cell_at i row) (fst p)) (mset (rows t)))"
      by simp
    then show ?thesis
      by (simp add: row_count_def flip: mset_filter)
  qed
  then have "(\<Sum>p\<leftarrow>parts. row_count (snd p))
      = (\<Sum>p\<leftarrow>parts. length (filter (\<lambda>row. cell_eq (cell_at i row) (fst p)) (rows t)))"
    by (intro arg_cong [of _ _ sum_list] map_cong) auto
  also have "\<dots> = (\<Sum>k\<leftarrow>map fst parts. length (filter (\<lambda>row. cell_eq (cell_at i row) k) (rows t)))"
    by (simp add: comp_def)
  also have "\<dots> = length (filter (\<lambda>row. cell_at i row \<noteq> Null) (rows t))"
    using get_region_names_props(1,2) [OF names i]
    by (intro partition_count) auto
  also have "\<dots> = length (dropna regions)"
    by (simp add: regions dropna_def filter_map comp_def)
  finally have total: "(\<Sum>p\<leftarrow>parts. row_count (snd p)) = length (dropna regions)" .
  moreover have "length (dropna regions) = row_count t" if "Null \<notin> set regions"
  proof -
    from that have "dropna regions = regions"
      by (auto simp: dropna_def intro: filter_True)
    then show ?thesis by (simp add: regions row_count_def)
  qed
  ultimately show ?thesis by simp
qed

theorem split_by_region_row_counts_witness:
  "sort_permutes stable_sort
   \<and> split_by_region stable_sort scenario_table ''Region'' True = Inr scenario_parts
   \<and> column scenario_table ''Region'' = Inr [Str ''US'', Str ''EU'', Str ''US'']
   \<and> Null \<notin> set [Str ''US'', Str ''EU'', Str ''US'']
   \<and> (\<Sum>p\<leftarrow>scenario_parts. row_count (snd p)) = 3
   \<and> row_count scenario_table = 3"
proof -
  have split: "split_by_region stable_sort scenario_table ''Region'' True = Inr scenario_parts"
    by code_simp
  have col: "column scenario_table ''Region'' = Inr [Str ''US'', Str ''EU'', Str ''US'']"
    by code_simp
  have n: "row_count scenario_table = 3"
    by (simp add: row_count_def scenario_table_def)
  from split_by_region_row_counts [OF stable_sort_permutes split col] n
  show ?thesis using split col stable_sort_permutes by simp
qed

text \<open>
  C3 as stated fails on a table with a missing Region value: the row is in no
  per-region table, so the counts add up to 3 for a table of 4 rows.
\<close>

theorem split_by_region_loses_missing_region:
  "split_by_region stable_sort missing_region_table ''Region'' True = Inr scenario_parts
   \<and> (\<Sum>p\<leftarrow>scenario_parts. row_count (snd p)) \<noteq> row_count missing_region_table"
proof -
  have "split_by_region stable_sort missing_region_table ''Region'' True = Inr scenario_parts"
    by code_simp
  moreover have "(\<Sum>p\<leftarrow>scenario_parts. row_count (snd p)) = 3"
    by (simp add: scenario_parts_def row_count_def)
  moreover have "row_count missing_region_table = 4"
    by (simp add: row_count_def missing_region_table_def)
  ultimately show ?thesis by simp
qed

text \<open>
  C9. The keys of the dictionary \<^verbatim>\<open>split_by_region\<close> returns are the region names
  \<^verbatim>\<open>get_region_names\<close> returns: the distinct values of the Region column other than
  the missing value, in ascending order. The table of a key holds exactly the rows
  whose Region is that key (without the Region column when it is dropped), so a row
  whose Region is missing is in none.
\<close>

theorem split_by_region_keys:
  assumes perm: "sort_permutes kind"
    and split: "split_by_region kind t ''Region'' drop_region_col = Inr parts"
    and i: "col_index ''Region'' (cols t) = Some i"
  shows "get_region_names t ''Region'' True = Inr (map fst parts)
    \<and> distinct (map fst parts)
    \<and> set (map fst parts) = set (map (cell_at i) (rows t)) - {Null}
    \<and> sorted_wrt cell_le (map fst parts)
    \<and> (\<forall>p\<in>set parts. mset (rows (snd p)) =
          image_mset (\<lambda>row. if drop_region_col then take i row @ drop (Suc i) row else row)
            (filter_mset (\<lambda>row. cell_at i row = fst p) (mset (rows t))))"
proof -
  from split_by_region_parts [OF split]
  have names: "get_region_names t ''Region'' True = Inr (map fst parts)"
    and tabs: "list_all (\<lambda>p. region_table kind t ''Region'' drop_region_col (fst p) = Inr (snd p)) parts"
    by auto
  note props = get_region_names_props [OF names i]
  have "mset (rows (snd p)) =
          image_mset (\<lambda>row. if drop_region_col then take i row @ drop (Suc i) row else row)
            (filter_mset (\<lambda>row. cell_at i row = fst p) (mset (rows t)))"
    if p: "p \<in> set parts" for p
  proof -
    from p props(2) have "fst p \<noteq> Null" by auto
    then have eq: "cell_eq (cell_at i row) (fst p) \<longleftrightarrow> cell_at i row = fst p" for row
      by (auto simp: cell_eq_def)
    from p tabs have "region_table kind t ''Region'' drop_region_col (fst p) = Inr (snd p)"
      by (simp add: list_all_iff)
    from region_table_rows [OF perm this i] show ?thesis
      by (simp add: eq)
  qed
  then have "\<forall>p\<in>set parts. mset (rows (snd p)) =
          image_mset (\<lambda>row. if drop_region_col then take i row @ drop (Suc i) row else row)
            (filter_mset (\<lambda>row. cell_at i row = fst p) (mset (rows t)))"
    by (rule ballI)
  with names props(1) props(2) props(3) show ?thesis
    by (intro conjI)
qed

theorem split_by_region_keys_witness:
  "split_by_region stable_sort missing_region_table ''Region'' False = Inr missing_region_parts
   \<and> col_index ''Region'' (cols missing_region_table) = Some 2
   \<and> get_region_names missing_region_table ''Region'' True = Inr [Str ''EU'', Str ''US'']
   \<and> set [Str ''EU'', Str ''US''] = set (map (cell_at 2) (rows missing_region_table)) - {Null}
   \<and> mset (rows (snd (missing_region_parts ! 0))) =
       filter_mset (\<lambda>row. cell_at 2 row = Str ''EU'') (mset (rows missing_region_table))
   \<and> mset (rows (snd (missing_region_parts ! 1))) =
       filter_mset (\<lambda>row. cell_at 2 row = Str ''US'') (mset (rows missing_region_table))"
proof -
  have split: "split_by_region stable_sort missing_region_table ''Region'' False = Inr missing_region_parts"
    by code_simp
  have i: "col_index ''Region'' (cols missing_region_table) = Some 2"
    by (simp add: missing_region_table_def)
  have keys: "map fst missing_region_parts = [Str ''EU'', Str ''US'']"
    by (simp add: missing_region_parts_def)
  have parts: "set missing_region_parts = {missing_region_parts ! 0, missing_region_parts ! Suc 0}"
    "fst (missing_region_parts ! 0) = Str ''EU''" "fst (missing_region_parts ! Suc 0) = Str ''US''"
    by (auto simp: missing_region_parts_def)
  from split_by_region_keys [OF stable_sort_permutes split i]
  show ?thesis using split i by (simp add: keys parts)
qed

section \<open>Properties of the model-share analysis\<close>

lemma share_row_zero: "fsum fp xs = Fin 0 \<Longrightarrow> share_row fp xs = map zero_share xs"
  by (simp add: share_row_def fdiv_def)

lemma sum_list_abs_diff:
  "\<forall>x\<in>set xs. \<bar>f x - g x\<bar> \<le> (h x :: real)
   \<Longrightarrow> \<bar>sum_list (map f xs) - sum_list (map g xs)\<bar> \<le> sum_list (map h xs)"
  by (induction xs) auto

lemma sum_list_divide: "(\<Sum>x\<leftarrow>xs. x / c) = sum_list xs / (c::real)"
  by (induction xs) (simp_all add: add_divide_distrib)

lemma sum_list_affine: "(\<Sum>x\<leftarrow>xs. u * x / c + e) = u * sum_list xs / c + real (length xs) * (e::real)"
  by (induction xs) (simp_all add: algebra_simps add_divide_distrib)

lemma sum_list_abs_nonneg: "\<forall>x\<in>set xs. 0 \<le> (x::real) \<Longrightarrow> (\<Sum>x\<leftarrow>xs. \<bar>x\<bar>) = sum_list xs"
  by (induction xs) auto

lemma share_row_tolerance:
  assumes u: "0 \<le> u" and eta: "0 \<le> eta" and g: "0 \<le> g" "g < 1"
    and s: "fsum fp xs = Fin s" "s \<noteq> 0"
    and nonneg: "\<forall>x\<in>set xs. 0 \<le> x"
    and quot: "\<forall>x\<in>set xs. quot_accurate fp u eta x s"
    and sum: "sum_accurate fp g xs"
  shows "list_all is_fin (share_row fp xs)"
    and "\<bar>(\<Sum>c\<leftarrow>share_row fp xs. the_fin c) - 1\<bar> \<le> (g + u) / (1 - g) + real (length xs) * eta"
proof -
  let ?S = "sum_list xs"
  from nonneg have S0: "0 \<le> ?S" by (simp add: sum_list_nonneg)
  from sum s(1) nonneg have err: "\<bar>s - ?S\<bar> \<le> g * ?S"
    by (simp add: sum_accurate_def sum_list_abs_nonneg)
  from g S0 have "g * ?S \<le> ?S" by (simp add: mult_left_le_one_le)
  with err have "0 \<le> s" by linarith
  with s(2) have spos: "0 < s" by simp
  from err have "?S - s \<le> g * ?S" by linarith
  then have low: "(1 - g) * ?S \<le> s" by (simp add: algebra_simps)
  have row: "share_row fp xs = map (\<lambda>x. fquot fp x s) xs"
    using s by (simp add: share_row_def fdiv_def)
  have q: "is_fin (fquot fp x s) \<and> \<bar>the_fin (fquot fp x s) - x / s\<bar> \<le> u * (x / s) + eta"
    if "x \<in> set xs" for x
  proof -
    from that nonneg spos have "\<bar>x / s\<bar> = x / s" by simp
    moreover from that quot have "quot_accurate fp u eta x s" by blast
    ultimately show ?thesis
      by (cases "fquot fp x s") (simp_all add: quot_accurate_def)
  qed
  then show "list_all is_fin (share_row fp xs)"
    by (simp add: row list_all_iff)
  have "\<bar>(\<Sum>x\<leftarrow>xs. the_fin (fquot fp x s)) - (\<Sum>x\<leftarrow>xs. x / s)\<bar> \<le> (\<Sum>x\<leftarrow>xs. u * (x / s) + eta)"
    by (rule sum_list_abs_diff) (use q in blast)
  then have d1: "\<bar>(\<Sum>x\<leftarrow>xs. the_fin (fquot fp x s)) - ?S / s\<bar> \<le> u * (?S / s) + real (length xs) * eta"
    by (simp add: sum_list_divide sum_list_affine)
  from spos have "?S / s - 1 = (?S - s) / s" by (simp add: diff_divide_distrib)
  then have "\<bar>?S / s - 1\<bar> = \<bar>s - ?S\<bar> / s"
    using spos by (simp add: abs_minus_commute)
  also from err spos have "\<dots> \<le> g * ?S / s" by (simp add: divide_right_mono)
  finally have d2: "\<bar>?S / s - 1\<bar> \<le> g * (?S / s)" by simp
  from low g spos have ratio: "?S / s \<le> 1 / (1 - g)"
    by (simp add: field_simps)
  from d1 d2 have "\<bar>(\<Sum>x\<leftarrow>xs. the_fin (fquot fp x s)) - 1\<bar>
      \<le> u * (?S / s) + real (length xs) * eta + g * (?S / s)"
    by linarith
  then have "\<bar>(\<Sum>x\<leftarrow>xs. the_fin (fquot fp x s)) - 1\<bar> \<le> (g + u) * (?S / s) + real (length xs) * eta"
    by (simp add: algebra_simps add_divide_distrib)
  also from ratio u g have "(g + u) * (?S / s) \<le> (g + u) * (1 / (1 - g))"
    by (intro mult_left_mono) simp_all
  finally show "\<bar>(\<Sum>c\<leftarrow>share_row fp xs. the_fin c) - 1\<bar> \<le> (g + u) / (1 - g) + real (length xs) * eta"
    by (simp add: row comp_def)
qed


lemma share_row_props:
  assumes "0 \<le> u" and "0 \<le> eta" and "0 \<le> g" and "g < 1"
  shows "(fsum fp xs = Fin 0 \<longrightarrow> share_row fp xs = map zero_share xs)
     \<and> (\<forall>s. fsum fp xs = Fin s \<and> s \<noteq> 0 \<and> (\<forall>x\<in>set xs. 0 \<le> x \<and> quot_accurate fp u eta x s)
              \<and> sum_accurate fp g xs
          \<longrightarrow> list_all is_fin (share_row fp xs)
              \<and> \<bar>(\<Sum>c\<leftarrow>share_row fp xs. the_fin c) - 1\<bar> \<le> (g + u) / (1 - g) + real (length xs) * eta)"
  using share_row_zero [of fp xs] share_row_tolerance [OF assms, of fp xs] by blast

text \<open>
  C2, amended. The share row of a date is its pivot row divided by the row's sum, as
  the arithmetic computes them. Where the computed sum is zero no cell is a number:
  a cell is NaN where the model's total is zero and an infinity where it is not;
  nothing is replaced by 0.0. Where the computed sum is a number other than zero and
  no total of the row is negative, the shares are numbers that add up to 1 within a
  tolerance, when the sum and the quotients of the row are accurate to \<open>g\<close> and to
  \<open>u\<close> and \<open>eta\<close>: the tolerance is \<open>(g + u) / (1 - g)\<close> and \<open>eta\<close> for each cell,
  for doubles about the number of models times 2 to the -53. With totals of both
  signs the computed sum can be far from the exact one, and the shares from 1.
\<close>

theorem model_share_rows:
  assumes res: "plot_model_share_ts fp kind h df date_col = Inr (h1, models, share)"
    and tol: "0 \<le> u" "0 \<le> eta" "0 \<le> g" "g < 1"
  shows "\<exists>pivot. model_pivot_ts kind h df date_col = Inr (h1, models, pivot)
     \<and> list_all2 (\<lambda>(d, xs) (d', row). d' = d \<and> row = share_row fp xs
            \<and> (fsum fp xs = Fin 0 \<longrightarrow> row = map zero_share xs)
            \<and> (\<forall>s. fsum fp xs = Fin s \<and> s \<noteq> 0 \<and> (\<forall>x\<in>set xs. 0 \<le> x \<and> quot_accurate fp u eta x s)
                     \<and> sum_accurate fp g xs
                 \<longrightarrow> list_all is_fin row
                     \<and> \<bar>(\<Sum>c\<leftarrow>row. the_fin c) - 1\<bar> \<le> (g + u) / (1 - g) + real (length xs) * eta))
          pivot share"
proof -
  from res obtain pivot where pivot: "model_pivot_ts kind h df date_col = Inr (h1, models, pivot)"
    and share: "share = map (\<lambda>(d, xs). (d, share_row fp xs)) pivot"
    by (auto simp: plot_model_share_ts_def split: sum.splits)
  have "list_all2 (\<lambda>(d, xs) (d', row). d' = d \<and> row = share_row fp xs
            \<and> (fsum fp xs = Fin 0 \<longrightarrow> row = map zero_share xs)
            \<and> (\<forall>s. fsum fp xs = Fin s \<and> s \<noteq> 0 \<and> (\<forall>x\<in>set xs. 0 \<le> x \<and> quot_accurate fp u eta x s)
                     \<and> sum_accurate fp g xs
                 \<longrightarrow> list_all is_fin row
                     \<and> \<bar>(\<Sum>c\<leftarrow>row. the_fin c) - 1\<bar> \<le> (g + u) / (1 - g) + real (length xs) * eta))
          pivot (map (\<lambda>(d, xs). (d, share_row fp xs)) pivot)"
    unfolding list_all2_map2
    by (rule list_all2_refl) (use share_row_props [OF tol, of fp] in \<open>simp add: case_prod_beta\<close>)
  with pivot share show ?thesis by blast
qed

lemma returnedD: "returned r = Inr x \<Longrightarrow> \<exists>h1. r = Inr (h1, x)"
  by (cases r) (auto simp: returned_def)

theorem model_share_rows_witness:
  "returned (model_pivot_ts stable_sort [share_example_table] 0 ''Date'') =
     Inr ([''A'', ''B''], [((2023, 1, 1), [1, 3]), ((2023, 2, 1), [0, 0])])
   \<and> returned (plot_model_share_ts exact_fp stable_sort [share_example_table] 0 ''Date'') =
     Inr ([''A'', ''B''], [((2023, 1, 1), [Fin (1 / 4), Fin (3 / 4)]), ((2023, 2, 1), [NaN, NaN])])
   \<and> fsum exact_fp [1, 3] = Fin 4 \<and> sum_accurate exact_fp (1 / 2 ^ 52) [1, 3]
   \<and> quot_accurate exact_fp (1 / 2 ^ 53) 0 1 4
   \<and> quot_accurate exact_fp (1 / 2 ^ 53) 0 3 4
   \<and> \<bar>(\<Sum>c\<leftarrow>[Fin (1 / 4), Fin (3 / 4)]. the_fin c) - 1\<bar>
        \<le> (1 / 2 ^ 52 + 1 / 2 ^ 53) / (1 - 1 / 2 ^ 52) + real (length [1, 3 :: real]) * 0
   \<and> fsum exact_fp [0, 0] = Fin 0 \<and> [NaN, NaN] = map zero_share [0, 0]"
proof -
  have p: "returned (model_pivot_ts stable_sort [share_example_table] 0 ''Date'') =
     Inr ([''A'', ''B''], [((2023, 1, 1), [1, 3]), ((2023, 2, 1), [0, 0])])"
    by code_simp
  have s: "returned (plot_model_share_ts exact_fp stable_sort [share_example_table] 0 ''Date'') =
     Inr ([''A'', ''B''], [((2023, 1, 1), [Fin (1 / 4), Fin (3 / 4)]), ((2023, 2, 1), [NaN, NaN])])"
    by code_simp
  from returnedD [OF s] obtain h1 where
    "plot_model_share_ts exact_fp stable_sort [share_example_table] 0 ''Date'' =
       Inr (h1, [''A'', ''B''], [((2023, 1, 1), [Fin (1 / 4), Fin (3 / 4)]), ((2023, 2, 1), [NaN, NaN])])"
    by blast
  from model_share_rows [OF this, of "1 / 2 ^ 53" 0 "1 / 2 ^ 52"]
  obtain pivot where pv: "model_pivot_ts stable_sort [share_example_table] 0 ''Date'' =
       Inr (h1, [''A'', ''B''], pivot)"
    and rows: "list_all2 (\<lambda>(d, xs) (d', row). d' = d \<and> row = share_row exact_fp xs
            \<and> (fsum exact_fp xs = Fin 0 \<longrightarrow> row = map zero_share xs)
            \<and> (\<forall>s. fsum exact_fp xs = Fin s \<and> s \<noteq> 0
                     \<and> (\<forall>x\<in>set xs. 0 \<le> x \<and> quot_accurate exact_fp (1 / 2 ^ 53) 0 x s)
                     \<and> sum_accurate exact_fp (1 / 2 ^ 52) xs
                 \<longrightarrow> list_all is_fin row
                     \<and> \<bar>(\<Sum>c\<leftarrow>row. the_fin c) - 1\<bar>
                          \<le> (1 / 2 ^ 52 + 1 / 2 ^ 53) / (1 - 1 / 2 ^ 52) + real (length xs) * 0))
          pivot [((2023, 1, 1), [Fin (1 / 4), Fin (3 / 4)]), ((2023, 2, 1), [NaN, NaN])]"
    by auto
  from pv p have pivot: "pivot = [((2023, 1, 1), [1, 3]), ((2023, 2, 1), [0, 0])]"
    by (simp add: returned_def)
  have f: "fsum exact_fp [1, 3] = Fin 4" "fsum exact_fp [0, 0] = Fin 0"
    by (simp_all add: exact_fp_def)
  have a: "sum_accurate exact_fp (1 / 2 ^ 52) [1, 3]"
    "quot_accurate exact_fp (1 / 2 ^ 53) 0 1 4"
    "quot_accurate exact_fp (1 / 2 ^ 53) 0 3 4"
    by (simp_all add: exact_fp_def sum_accurate_def quot_accurate_def)
  from rows have "\<bar>(\<Sum>c\<leftarrow>[Fin (1 / 4), Fin (3 / 4)]. the_fin c) - 1\<bar>
        \<le> (1 / 2 ^ 52 + 1 / 2 ^ 53) / (1 - 1 / 2 ^ 52) + real (length [1, 3 :: real]) * 0"
    "[NaN, NaN] = map zero_share [0, 0]"
    unfolding pivot
    by (simp_all add: share_row_def fdiv_def exact_fp_def sum_accurate_def quot_accurate_def zero_share_def)
  with p s f a show ?thesis by blast
qed

text \<open>
  C2 as stated fails on the specification's own scenario: two models, both with a
  total of zero for the one date. The share row is NaN, NaN, not 0.0, 0.0.
\<close>

theorem model_share_zero_row_is_nan:
  "returned (model_pivot_ts stable_sort [zero_deliveries_table] 0 ''Date'') =
     Inr ([''A'', ''B''], [((2023, 1, 1), [0, 0])])
   \<and> returned (plot_model_share_ts exact_fp stable_sort [zero_deliveries_table] 0 ''Date'') =
     Inr ([''A'', ''B''], [((2023, 1, 1), [NaN, NaN])])
   \<and> NaN \<noteq> Fin 0"
proof -
  have "returned (model_pivot_ts stable_sort [zero_deliveries_table] 0 ''Date'') =
     Inr ([''A'', ''B''], [((2023, 1, 1), [0, 0])])"
    by code_simp
  moreover have "returned (plot_model_share_ts exact_fp stable_sort [zero_deliveries_table] 0 ''Date'') =
     Inr ([''A'', ''B''], [((2023, 1, 1), [NaN, NaN])])"
    by code_simp
  ultimately show ?thesis by simp
qed

section \<open>Properties of the date synthesizer\<close>

lemma col_index_append_new: "c \<notin> set xs \<Longrightarrow> col_index c (xs @ [c]) = Some (length xs)"
  by (induction xs) auto

lemma col_index_mem: "c \<in> set xs \<Longrightarrow> \<exists>i. col_index c xs = Some i"
  by (induction xs) auto

lemma collect_map_Inr: "collect (map Inr ys) = Inr ys"
  by (induction ys) auto

lemma collect_Inr_iff: "collect xs = Inr ys \<longleftrightarrow> xs = map Inr ys"
proof
  show "collect xs = Inr ys \<Longrightarrow> xs = map Inr ys"
    by (induction xs arbitrary: ys rule: collect.induct) (auto split: sum.splits)
  show "xs = map Inr ys \<Longrightarrow> collect xs = Inr ys"
    by (simp add: collect_map_Inr)
qed

lemma collect_length: "collect xs = Inr ys \<Longrightarrow> length ys = length xs"
  by (simp add: collect_Inr_iff)

lemma to_datetime_cell_datelike: "to_datetime_cell f c = Inr d \<Longrightarrow> kind_rank d = 2 \<or> d = Null"
  by (cases c; cases f) (auto simp: map_sum_def split: sum.splits)

lemma to_datetime_props:
  assumes "to_datetime cs = Inr ds"
  shows "length ds = length cs" and "datelike ds"
proof -
  from assms have eq: "map (to_datetime_cell (column_format cs)) cs = map Inr ds"
    by (simp add: to_datetime_def collect_Inr_iff)
  then show "length ds = length cs" by (metis length_map)
  from eq have "list_all2 (\<lambda>c d. to_datetime_cell (column_format cs) c = Inr d) cs ds"
    by (simp add: list_all2_conv_all_nth list_eq_iff_nth_eq)
  then have "list_all (\<lambda>d. kind_rank d = 2 \<or> d = Null) ds"
    by (induction rule: list_all2_induct) (auto dest: to_datetime_cell_datelike)
  then show "datelike ds" by (simp add: datelike_def)
qed

lemma to_datetime_datelike: "datelike cs \<Longrightarrow> to_datetime cs = Inr cs"
proof -
  have "kind_rank c = 2 \<or> c = Null \<Longrightarrow> to_datetime_cell f c = Inr c" for c f
    by (cases c) auto
  then have "list_all (\<lambda>c. kind_rank c = 2 \<or> c = Null) cs \<Longrightarrow> map (to_datetime_cell f) cs = map Inr cs" for f
    by (induction cs) auto
  then show "datelike cs \<Longrightarrow> to_datetime cs = Inr cs"
    by (simp add: datelike_def to_datetime_def collect_Inr_iff)
qed

lemma date_strings_length:
  "date_strings t yc mc = Inr strs \<Longrightarrow> length strs = length (rows t)"
  by (auto simp: date_strings_def column_def dest!: collect_length split: sum.splits option.splits)

lemma map2_append_last:
  "length vs = length rs \<Longrightarrow> \<forall>r\<in>set rs. length r = n
   \<Longrightarrow> map (cell_at n) (map2 (\<lambda>r v. r @ [v]) rs vs) = vs"
  by (induction rs vs rule: list_induct2') (auto simp: cell_at_def)

lemma map2_update_at:
  "length vs = length rs \<Longrightarrow> \<forall>r\<in>set rs. i < length r
   \<Longrightarrow> map (cell_at i) (map2 (\<lambda>r v. r[i := v]) rs vs) = vs"
  by (induction rs vs rule: list_induct2') (auto simp: cell_at_def)

lemma setitem_column:
  assumes "wf_table t" and "length vs = length (rows t)"
  shows "\<exists>i. col_index c (cols (setitem t c vs)) = Some i
           \<and> map (cell_at i) (rows (setitem t c vs)) = vs"
    and "wf_table (setitem t c vs)"
proof -
  from assms(1) have len: "\<forall>r\<in>set (rows t). length r = length (cols t)"
    and dist: "distinct (cols t)"
    by (auto simp: wf_table_def list_all_iff)
  show "\<exists>i. col_index c (cols (setitem t c vs)) = Some i
           \<and> map (cell_at i) (rows (setitem t c vs)) = vs"
  proof (cases "col_index c (cols t)")
    case None
    then have new: "c \<notin> set (cols t)" by (simp add: col_index_None_iff)
    from map2_append_last [OF assms(2) len] None col_index_append_new [OF new]
    show ?thesis by (simp add: setitem_def)
  next
    case (Some i)
    with len have "\<forall>r\<in>set (rows t). i < length r"
      by (auto dest: col_index_Some_less)
    from map2_update_at [OF assms(2) this] Some
    show ?thesis by (simp add: setitem_def)
  qed
  show "wf_table (setitem t c vs)"
  proof (cases "col_index c (cols t)")
    case None
    then have new: "c \<notin> set (cols t)" by (simp add: col_index_None_iff)
    have "\<forall>r\<in>set (map2 (\<lambda>r v. r @ [v]) (rows t) vs). length r = Suc (length (cols t))"
      using len by (auto simp: set_zip)
    with None new dist show ?thesis
      by (simp add: setitem_def wf_table_def list_all_iff)
  next
    case (Some i)
    have "\<forall>r\<in>set (map2 (\<lambda>r v. r[i := v]) (rows t) vs). length r = length (cols t)"
      using len by (auto simp: set_zip)
    with Some dist show ?thesis
      by (simp add: setitem_def wf_table_def list_all_iff)
  qed
qed

lemma setitem_same:
  assumes "col_index c (cols t) = Some i"
  shows "setitem t c (map (cell_at i) (rows t)) = t"
proof -
  have "map2 (\<lambda>r v. r[i := v]) rs (map (cell_at i) rs) = rs" for rs
    by (induction rs) (auto simp: cell_at_def list_update_beyond)
  with assms show ?thesis by (simp add: setitem_def)
qed


lemma date_cells_props:
  assumes "date_cells t dc = Inr dates"
  shows "length dates = length (rows t)" and "datelike dates"
proof -
  from assms obtain cs where cs: "to_datetime cs = Inr dates" and "length cs = length (rows t)"
    by (auto simp: date_cells_def column_def dest: date_strings_length
        split: if_splits sum.splits option.splits)
  with to_datetime_props [OF cs] show "length dates = length (rows t)" and "datelike dates"
    by simp_all
qed

lemma datelike_sortable: "datelike cs \<Longrightarrow> sortable cs"
  by (simp add: datelike_def sortable_def)

lemma add_date_column_heap:
  assumes "add_date_column h df year_col month_col date_col = Inr (h1, df1)"
  shows "df1 = length h" and "length h1 = Suc (length h)" and "\<forall>r<length h. h1 ! r = h ! r"
  using assms
  by (auto simp: add_date_column_def df_copy_def nth_append split: sum.splits)




lemma sort_values_datelike:
  assumes "col_index c (cols t) = Some i" and "datelike (map (cell_at i) (rows t))"
  shows "sort_values kind t [c] = Inr (t\<lparr>rows := kind (keys_le [i]) (rows t)\<rparr>)"
  using assms datelike_sortable [OF assms(2)] by (simp add: sort_values_def)

lemma prepare_ts_df_char:
  assumes "df < length h" and "wf_table (h ! df)"
  shows "prepare_ts_df kind h df date_col =
     (case date_cells (h ! df) date_col of
        Inl e \<Rightarrow> Inl e
      | Inr dates \<Rightarrow>
          (let T = setitem (h ! df) date_col dates;
               S = T\<lparr>rows := kind (keys_le [the (col_index date_col (cols T))]) (rows T)\<rparr>
           in if date_col \<in> set (cols (h ! df))
              then Inr (h[df := T] @ [S], length h)
              else Inr (h @ [T, S], Suc (length h))))"
proof (cases "date_cells (h ! df) date_col")
  case (Inl e)
  show ?thesis
  proof (cases "date_col \<in> set (cols (h ! df))")
    case True
    then obtain i where "col_index date_col (cols (h ! df)) = Some i"
      using col_index_mem by blast
    with True Inl show ?thesis
      by (simp add: prepare_ts_df_def date_cells_def column_def)
  next
    case False
    with Inl have "add_date_column h df ''Year'' ''Month'' date_col = Inl e"
      by (auto simp: add_date_column_def df_copy_def date_cells_def split: sum.splits)
    with False Inl show ?thesis
      by (simp add: prepare_ts_df_def)
  qed
next
  case (Inr dates)
  let ?T = "setitem (h ! df) date_col dates"
  from date_cells_props [OF Inr] have len: "length dates = length (rows (h ! df))"
    and dl: "datelike dates" by simp_all
  from setitem_column(1) [OF assms(2) len, of date_col] obtain i where
    i: "col_index date_col (cols ?T) = Some i" "map (cell_at i) (rows ?T) = dates"
    by blast
  let ?S = "?T\<lparr>rows := kind (keys_le [i]) (rows ?T)\<rparr>"
  from i dl have srt: "sort_values kind ?T [date_col] = Inr ?S"
    by (intro sort_values_datelike) simp_all
  show ?thesis
  proof (cases "date_col \<in> set (cols (h ! df))")
    case True
    with Inr obtain cs where "column (h ! df) date_col = Inr cs" "to_datetime cs = Inr dates"
      by (auto simp: date_cells_def split: sum.splits)
    with True Inr i srt assms(1) show ?thesis
      by (simp add: prepare_ts_df_def Let_def)
  next
    case False
    with Inr have add: "add_date_column h df ''Year'' ''Month'' date_col = Inr (h @ [?T], length h)"
      by (auto simp: add_date_column_def df_copy_def date_cells_def split: sum.splits)
    from i have col: "column ?T date_col = Inr dates" by (simp add: column_def)
    from i have same: "setitem ?T date_col dates = ?T"
      using setitem_same [of date_col ?T i] by simp
    from False Inr i add col to_datetime_datelike [OF dl] same srt show ?thesis
      by (simp add: prepare_ts_df_def Let_def)
  qed
qed









lemma of_char_digit_char: "d < 10 \<Longrightarrow> of_char (digit_char d) = 48 + d"
  by (simp add: digit_char_def)

lemma is_digit_digit_char: "d < 10 \<Longrightarrow> is_digit (digit_char d)"
  by (simp add: is_digit_def of_char_digit_char)

lemma digit_val_digit_char: "d < 10 \<Longrightarrow> digit_val (digit_char d) = d"
  by (simp add: digit_val_def of_char_digit_char)

lemma is_digit_not_dash: "is_digit c \<Longrightarrow> c \<noteq> CHR ''-''"
  by (auto simp: is_digit_def)

lemma digits_of_digits: "list_all is_digit (digits_of n) \<and> digits_of n \<noteq> []"
proof (induction n rule: digits_of.induct)
  case (1 n)
  show ?case
  proof (cases "n < 10")
    case True
    then show ?thesis by (subst (1 2) digits_of.simps) (simp add: is_digit_digit_char)
  next
    case False
    with 1 show ?thesis by (subst (1 2) digits_of.simps) (simp add: is_digit_digit_char)
  qed
qed

lemma parse_fold_digits_of: "foldl (\<lambda>a c. 10 * a + digit_val c) 0 (digits_of n) = n"
proof (induction n rule: digits_of.induct)
  case (1 n)
  show ?case
  proof (cases "n < 10")
    case True
    then show ?thesis by (subst digits_of.simps) (simp add: digit_val_digit_char)
  next
    case False
    with 1 show ?thesis by (subst digits_of.simps) (simp add: digit_val_digit_char)
  qed
qed

lemma parse_nat_digits_of: "parse_nat (digits_of n) = Some n"
  using digits_of_digits [of n] by (simp add: parse_nat_def parse_fold_digits_of)

lemma length_digits_of_small: "n < 10 \<Longrightarrow> length (digits_of n) = 1"
  by (subst digits_of.simps) simp

lemma length_digits_of_step: "10 \<le> n \<Longrightarrow> length (digits_of n) = Suc (length (digits_of (n div 10)))"
  by (subst digits_of.simps) simp

lemma length_digits_of_2: "n < 100 \<Longrightarrow> length (digits_of n) \<le> 2"
  by (cases "n < 10") (simp_all add: length_digits_of_small length_digits_of_step)

lemma length_digits_of_4: "1000 \<le> n \<Longrightarrow> n < 10000 \<Longrightarrow> length (digits_of n) = 4"
  by (simp add: length_digits_of_small length_digits_of_step)

lemma split_on_no_sep: "c \<notin> set a \<Longrightarrow> split_on c a = [a]"
  by (induction a) auto

lemma split_on_sep: "c \<notin> set a \<Longrightarrow> split_on c (a @ c # rest) = a # split_on c rest"
  by (induction a) auto


lemma digits_of_no_dash: "CHR ''-'' \<notin> set (digits_of n)"
  using digits_of_digits [of n] by (auto simp: list_all_iff dest: is_digit_not_dash)

lemma parse_nat_01: "parse_nat ''01'' = Some 1"
  by (simp add: parse_nat_def is_digit_def digit_val_def)



lemma str_int_nonneg: "0 \<le> i \<Longrightarrow> str_int i = digits_of (nat i)"
  by (simp add: str_int_def)

lemma str_int_neg: "i < 0 \<Longrightarrow> str_int i = CHR ''-'' # digits_of (nat (- i))"
  by (simp add: str_int_def)

lemma length_digits_of_5: "10000 \<le> n \<Longrightarrow> 5 \<le> length (digits_of n)"
proof -
  assume n: "10000 \<le> n"
  have pos: "1 \<le> length (digits_of k)" for k
    using digits_of_digits [of k] by (cases "digits_of k") simp_all
  from n have "length (digits_of n) = Suc (Suc (Suc (Suc (length (digits_of (n div 10 div 10 div 10 div 10))))))"
    by (simp add: length_digits_of_step)
  with pos [of "n div 10 div 10 div 10 div 10"] show ?thesis by simp
qed

lemma split_on_built:
  "split_on (CHR ''-'') (digits_of a @ CHR ''-'' # digits_of b @ CHR ''-'' # ''01'')
     = [digits_of a, digits_of b, ''01'']"
  by (simp add: split_on_sep split_on_no_sep digits_of_no_dash)

lemma date_fields_built:
  "date_fields (digits_of a @ CHR ''-'' # digits_of b @ CHR ''-'' # ''01'')
     = Some (Y_m_d, digits_of a, digits_of b, ''01'')"
  by (simp add: date_fields_def split_on_built)

lemma date_fields_built_dash:
  "date_fields (digits_of a @ CHR ''-'' # CHR ''-'' # digits_of b @ CHR ''-'' # ''01'')
     = Some (Y_dash_m_d, digits_of a, digits_of b, ''01'')"
  by (simp add: date_fields_def split_on_sep split_on_no_sep digits_of_no_dash)

lemma date_fields_built_signed:
  "date_fields (CHR ''-'' # digits_of a @ CHR ''-'' # digits_of b @ CHR ''-'' # ''01'') = None"
  using digits_of_digits [of a]
  by (simp add: date_fields_def split_on_built)

lemma valid_date_first: "valid_date (y, m, 1) \<longleftrightarrow> 1 \<le> m \<and> m \<le> 12"
  by (auto simp: valid_date_def days_in_month_def)

lemma parse_date_built:
  assumes "1 \<le> m" and "m \<le> 12"
  shows "parse_date Y_m_d (str_int y @ CHR ''-'' # str_int m @ ''-01'')
       = (if calendar_month y m then Inr (y, m, 1) else Inl Unmodelled)"
proof (cases "y < 0")
  case True
  with assms show ?thesis
    by (simp add: parse_date_def str_int_neg str_int_nonneg date_fields_built_signed calendar_month_def)
next
  case False
  let ?ys = "digits_of (nat y)" and ?ms = "digits_of (nat m)"
  from False assms have str: "str_int y = ?ys" "str_int m = ?ms"
    by (simp_all add: str_int_nonneg)
  from assms have lm: "length ?ms \<le> 2" by (intro length_digits_of_2) simp
  have four: "length ?ys = 4 \<and> 1000 \<le> nat y \<longleftrightarrow> 1000 \<le> y \<and> y \<le> 9999"
  proof (cases "10000 \<le> nat y")
    case True
    from length_digits_of_5 [OF this] True show ?thesis by auto
  next
    case False
    then show ?thesis using length_digits_of_4 [of "nat y"] by auto
  qed
  from False assms lm four show ?thesis
    by (simp add: parse_date_def str date_fields_built parse_nat_digits_of parse_nat_01
        valid_date_first calendar_month_def)
qed

lemma parse_date_built_dash:
  assumes "calendar_month y (- m)"
  shows "parse_date Y_dash_m_d (str_int y @ CHR ''-'' # str_int m @ ''-01'') = Inr (y, - m, 1)"
proof -
  from assms have y: "1000 \<le> y" "y \<le> 9999" and m: "m \<le> - 1" "- 12 \<le> m"
    by (simp_all add: calendar_month_def)
  let ?ys = "digits_of (nat y)" and ?ms = "digits_of (nat (- m))"
  from y m have str: "str_int y = ?ys" "str_int m = CHR ''-'' # ?ms"
    by (simp_all add: str_int_nonneg str_int_neg)
  from m have lm: "length ?ms \<le> 2" by (intro length_digits_of_2) simp
  from y have ly: "length ?ys = 4" by (intro length_digits_of_4) simp_all
  from y m lm ly show ?thesis
    by (simp add: parse_date_def str date_fields_built_dash parse_nat_digits_of parse_nat_01
        valid_date_first)
qed

lemma guess_format_built:
  "0 \<le> m \<Longrightarrow> guess_format (str_int y @ CHR ''-'' # str_int m @ ''-01'')
     = (if 0 \<le> y then Some Y_m_d else None)"
  by (simp add: guess_format_def str_int_nonneg str_int_neg date_fields_built date_fields_built_signed)

lemma guess_format_built_dash:
  "0 \<le> y \<Longrightarrow> m < 0 \<Longrightarrow> guess_format (str_int y @ CHR ''-'' # str_int m @ ''-01'') = Some Y_dash_m_d"
  by (simp add: guess_format_def str_int_nonneg str_int_neg date_fields_built_dash)

lemma column_format_strings: "column_format (Str s # cs) = guess_format s"
  by (simp add: column_format_def)

lemma collect_castable:
  "list_all castable cs \<Longrightarrow> collect (map astype_int cs) = Inr (map cast_int cs)"
proof -
  have "castable c \<Longrightarrow> astype_int c = Inr (cast_int c)" for c
    by (cases "astype_int c") (simp_all add: castable_def cast_int_def)
  then have "list_all castable cs \<Longrightarrow> map astype_int cs = map Inr (map cast_int cs)"
    by (induction cs) auto
  then show "list_all castable cs \<Longrightarrow> collect (map astype_int cs) = Inr (map cast_int cs)"
    by (simp add: collect_Inr_iff)
qed

lemma collect_Inl_mem: "collect xs = Inl e \<Longrightarrow> Inl e \<in> set xs"
  by (induction xs rule: collect.induct) (auto split: sum.splits)

lemma to_datetime_built:
  assumes "list_all2 calendar_month ys ms"
  shows "to_datetime (map Str (map2 (\<lambda>y m. str_int y @ ''-'' @ str_int m @ ''-01'') ys ms))
     = Inr (map2 (\<lambda>y m. Dt (y, m, 1)) ys ms)"
proof -
  let ?strs = "map Str (map2 (\<lambda>y m. str_int y @ ''-'' @ str_int m @ ''-01'') ys ms)"
  from assms have cells: "map (to_datetime_cell (Some Y_m_d)) ?strs = map Inr (map2 (\<lambda>y m. Dt (y, m, 1)) ys ms)"
    by (induction rule: list_all2_induct) (simp_all add: parse_date_built calendar_month_def)
  from assms have "ys = [] \<or> column_format ?strs = Some Y_m_d"
    by (cases ys; cases ms)
      (simp_all add: column_format_strings guess_format_built calendar_month_def)
  with cells show ?thesis
    by (auto simp: to_datetime_def collect_Inr_iff)
qed

lemma to_datetime_built_dash:
  assumes "list_all2 (\<lambda>y m. calendar_month y (- m)) ys ms"
  shows "to_datetime (map Str (map2 (\<lambda>y m. str_int y @ ''-'' @ str_int m @ ''-01'') ys ms))
     = Inr (map2 (\<lambda>y m. Dt (y, - m, 1)) ys ms)"
proof -
  let ?strs = "map Str (map2 (\<lambda>y m. str_int y @ ''-'' @ str_int m @ ''-01'') ys ms)"
  from assms have cells: "map (to_datetime_cell (Some Y_dash_m_d)) ?strs = map Inr (map2 (\<lambda>y m. Dt (y, - m, 1)) ys ms)"
    by (induction rule: list_all2_induct) (simp_all add: parse_date_built_dash)
  from assms have "ys = [] \<or> column_format ?strs = Some Y_dash_m_d"
    by (cases ys; cases ms)
      (simp_all add: column_format_strings guess_format_built_dash calendar_month_def)
  with cells show ?thesis
    by (auto simp: to_datetime_def collect_Inr_iff)
qed

lemma to_datetime_built_error:
  assumes months: "list_all2 (\<lambda>y m. 1 \<le> m \<and> m \<le> (12::int)) ys ms"
    and err: "to_datetime (map Str (map2 (\<lambda>y m. str_int y @ ''-'' @ str_int m @ ''-01'') ys ms)) = Inl e"
  shows "e = Unmodelled"
proof -
  let ?strs = "map Str (map2 (\<lambda>y m. str_int y @ ''-'' @ str_int m @ ''-01'') ys ms)"
  let ?f = "column_format ?strs"
  from months have "?f = None \<or> ?f = Some Y_m_d"
    by (cases ys; cases ms)
      (simp_all add: column_format_strings guess_format_built column_format_def)
  moreover from err have "Inl e \<in> set (map (to_datetime_cell ?f) ?strs)"
    unfolding to_datetime_def by (rule collect_Inl_mem)
  then obtain y m where ym: "(y, m) \<in> set (zip ys ms)"
    and cell: "to_datetime_cell ?f (Str (str_int y @ ''-'' @ str_int m @ ''-01'')) = Inl e"
    by auto
  from months ym have "1 \<le> m" "m \<le> 12"
    by (auto simp: list_all2_iff)
  from parse_date_built [OF this, of y] have
    "to_datetime_cell (Some Y_m_d) (Str (str_int y @ ''-'' @ str_int m @ ''-01'')) = Inl e
      \<Longrightarrow> e = Unmodelled"
    by (simp split: if_splits)
  ultimately show ?thesis using cell by auto
qed


text \<open>
  C10. On a table with a Year and a Month column, \<^verbatim>\<open>add_date_column\<close> casts every
  value to an integer, truncating a fraction toward zero (2.9 to 2, -2.9 to -2), and
  hands the strings year-month-01 of the truncated values to \<^verbatim>\<open>pd.to_datetime\<close>.
  When every value can be cast and every truncated pair is a month, 1 to 12, of a
  four-digit year, it returns the copy with the first days of those months. It
  returns too when every truncated month is from -12 to -1: the date is the first
  day of the month without its sign. And when it raises, a value cannot be cast or
  a truncated month is not from 1 to 12: with every value cast and every month from
  1 to 12 the only answer of the model that is not a table is \<open>Unmodelled\<close>, for a
  year that has not four digits.
\<close>

theorem add_date_column_truncates:
  assumes df: "df < length h" and wf: "wf_table (h ! df)"
    and ys: "column (h ! df) ''Year'' = Inr ys" and ms: "column (h ! df) ''Month'' = Inr ms"
  shows "(list_all castable ys \<and> list_all castable ms
        \<longrightarrow> date_strings (h ! df) ''Year'' ''Month''
              = Inr (map2 (\<lambda>y m. str_int (cast_int y) @ ''-'' @ str_int (cast_int m) @ ''-01'') ys ms))
      \<and> (list_all castable ys \<and> list_all castable ms
          \<and> list_all2 (\<lambda>y m. calendar_month (cast_int y) (cast_int m)) ys ms
        \<longrightarrow> (\<exists>h1. add_date_column h df ''Year'' ''Month'' ''Date'' = Inr (h1, length h)
              \<and> column (h1 ! length h) ''Date''
                  = Inr (map2 (\<lambda>y m. Dt (cast_int y, cast_int m, 1)) ys ms)))
      \<and> (list_all castable ys \<and> list_all castable ms
          \<and> list_all2 (\<lambda>y m. calendar_month (cast_int y) (- cast_int m)) ys ms
        \<longrightarrow> (\<exists>h1. add_date_column h df ''Year'' ''Month'' ''Date'' = Inr (h1, length h)
              \<and> column (h1 ! length h) ''Date''
                  = Inr (map2 (\<lambda>y m. Dt (cast_int y, - cast_int m, 1)) ys ms)))
      \<and> (\<forall>e. add_date_column h df ''Year'' ''Month'' ''Date'' = Inl e \<and> e \<noteq> Unmodelled
        \<longrightarrow> \<not> (list_all castable ys \<and> list_all castable ms
               \<and> list_all2 (\<lambda>y m. 1 \<le> cast_int m \<and> cast_int m \<le> 12) ys ms))"
proof -
  let ?build = "\<lambda>y m. str_int y @ ''-'' @ str_int m @ ''-01''"
  let ?strs = "map2 ?build (map cast_int ys) (map cast_int ms)"
  have strs: "date_strings (h ! df) ''Year'' ''Month'' = Inr ?strs"
    if "list_all castable ys" and "list_all castable ms"
    using ys ms collect_castable [OF that(1)] collect_castable [OF that(2)]
    by (simp add: date_strings_def)
  have strs_eq: "?strs = map2 (\<lambda>y m. str_int (cast_int y) @ ''-'' @ str_int (cast_int m) @ ''-01'') ys ms"
    by (auto simp: zip_map_map)
  from ys ms have len: "length ys = length (rows (h ! df))" "length ms = length (rows (h ! df))"
    by (auto simp: column_def split: option.splits)
  have ok: "\<exists>h1. add_date_column h df ''Year'' ''Month'' ''Date'' = Inr (h1, length h)
              \<and> column (h1 ! length h) ''Date'' = Inr (map2 (\<lambda>y m. Dt (cast_int y, f (cast_int m), 1)) ys ms)"
    if cy: "list_all castable ys" and cm: "list_all castable ms"
      and td: "to_datetime (map Str ?strs)
                 = Inr (map2 (\<lambda>y m. Dt (y, f m, 1)) (map cast_int ys) (map cast_int ms))"
    for f :: "int \<Rightarrow> int"
  proof -
    let ?dates = "map2 (\<lambda>y m. Dt (y, f m, 1)) (map cast_int ys) (map cast_int ms)"
    let ?T = "setitem (h ! df) ''Date'' ?dates"
    from td strs [OF cy cm]
    have add: "add_date_column h df ''Year'' ''Month'' ''Date'' = Inr (h @ [?T], length h)"
      by (simp add: add_date_column_def df_copy_def)
    from len have "length ?dates = length (rows (h ! df))" by simp
    from setitem_column(1) [OF wf this, of "''Date''"] have "column ?T ''Date'' = Inr ?dates"
      by (auto simp: column_def)
    moreover have "?dates = map2 (\<lambda>y m. Dt (cast_int y, f (cast_int m), 1)) ys ms"
      by (auto simp: zip_map_map)
    ultimately show ?thesis using add by simp
  qed
  have plain: "\<exists>h1. add_date_column h df ''Year'' ''Month'' ''Date'' = Inr (h1, length h)
              \<and> column (h1 ! length h) ''Date'' = Inr (map2 (\<lambda>y m. Dt (cast_int y, cast_int m, 1)) ys ms)"
    if cy: "list_all castable ys" and cm: "list_all castable ms"
      and v: "list_all2 (\<lambda>y m. calendar_month (cast_int y) (cast_int m)) ys ms"
  proof -
    from v have "list_all2 calendar_month (map cast_int ys) (map cast_int ms)"
      by (simp add: list_all2_map1 list_all2_map2)
    from ok [OF cy cm, of "\<lambda>m. m"] to_datetime_built [OF this] show ?thesis by simp
  qed
  have dash: "\<exists>h1. add_date_column h df ''Year'' ''Month'' ''Date'' = Inr (h1, length h)
              \<and> column (h1 ! length h) ''Date'' = Inr (map2 (\<lambda>y m. Dt (cast_int y, - cast_int m, 1)) ys ms)"
    if cy: "list_all castable ys" and cm: "list_all castable ms"
      and v: "list_all2 (\<lambda>y m. calendar_month (cast_int y) (- cast_int m)) ys ms"
  proof -
    from v have "list_all2 (\<lambda>y m. calendar_month y (- m)) (map cast_int ys) (map cast_int ms)"
      by (simp add: list_all2_map1 list_all2_map2)
    from ok [OF cy cm, of uminus] to_datetime_built_dash [OF this] show ?thesis by simp
  qed
  have raises: "e = Unmodelled"
    if cy: "list_all castable ys" and cm: "list_all castable ms"
      and v: "list_all2 (\<lambda>y m. 1 \<le> cast_int m \<and> cast_int m \<le> 12) ys ms"
      and e: "add_date_column h df ''Year'' ''Month'' ''Date'' = Inl e" for e
  proof -
    from e strs [OF cy cm] have "to_datetime (map Str ?strs) = Inl e"
      by (simp add: add_date_column_def df_copy_def split: sum.splits)
    moreover from v have "list_all2 (\<lambda>y m. 1 \<le> m \<and> m \<le> (12::int)) (map cast_int ys) (map cast_int ms)"
      by (simp add: list_all2_map1 list_all2_map2)
    ultimately show ?thesis by (intro to_datetime_built_error)
  qed
  from strs strs_eq plain dash raises show ?thesis by (intro conjI impI allI notI) auto
qed

text \<open>Truncation is toward zero; a month of 13 and a missing year raise.\<close>

lemma trunc_examples: "trunc 2.9 = 2" "trunc (- 2.9) = - 2" "trunc 2023.7 = 2023" "trunc 12 = 12"
  by (simp_all add: trunc_def)

theorem add_date_column_truncates_witness:
  "column fractional_table ''Year'' = Inr [Num 2023.7, Num 1600]
   \<and> column fractional_table ''Month'' = Inr [Num 2.9, Num 12]
   \<and> castable (Num 2.9) \<and> cast_int (Num 2023.7) = 2023 \<and> cast_int (Num 2.9) = 2
   \<and> calendar_month 2023 2 \<and> calendar_month 1600 12
   \<and> date_strings fractional_table ''Year'' ''Month'' = Inr [''2023-2-01'', ''1600-12-01'']
   \<and> (\<exists>h1. add_date_column [fractional_table] 0 ''Year'' ''Month'' ''Date'' = Inr (h1, 1)
        \<and> column (h1 ! 1) ''Date'' = Inr [Dt (2023, 2, 1), Dt (1600, 12, 1)])
   \<and> column negative_month_table ''Month'' = Inr [Num (- 2.9)]
   \<and> cast_int (Num (- 2.9)) = - 2 \<and> \<lfloor>- 2.9 :: real\<rfloor> = - 3
   \<and> date_strings negative_month_table ''Year'' ''Month'' = Inr [''2023--2-01'']
   \<and> (\<exists>h1. add_date_column [negative_month_table] 0 ''Year'' ''Month'' ''Date'' = Inr (h1, 1)
        \<and> column (h1 ! 1) ''Date'' = Inr [Dt (2023, 2, 1)])"
proof -
  have wf: "wf_table ([fractional_table] ! 0)"
    by (simp add: wf_table_def fractional_table_def)
  have ys: "column ([fractional_table] ! 0) ''Year'' = Inr [Num 2023.7, Num 1600]"
    by (simp add: column_def fractional_table_def cell_at_def)
  have ms: "column ([fractional_table] ! 0) ''Month'' = Inr [Num 2.9, Num 12]"
    by (simp add: column_def fractional_table_def cell_at_def)
  have c: "castable (Num 2023.7)" "castable (Num 1600)" "castable (Num 2.9)" "castable (Num 12)"
    "castable (Num 2023)" "castable (Num (- 2.9))"
    by (simp_all add: castable_def trunc_def)
  have t: "cast_int (Num 2023.7) = 2023" "cast_int (Num 1600) = 1600"
    "cast_int (Num 2.9) = 2" "cast_int (Num 12) = 12"
    "cast_int (Num 2023) = 2023" "cast_int (Num (- 2.9)) = - 2"
    by (simp_all add: cast_int_def trunc_def)
  have fl: "\<lfloor>- 2.9 :: real\<rfloor> = - 3" by simp
  have v: "calendar_month 2023 2" "calendar_month 1600 12"
    by (simp_all add: calendar_month_def)
  have s: "str_int 2023 @ ''-'' @ str_int 2 @ ''-01'' = ''2023-2-01''"
    "str_int 1600 @ ''-'' @ str_int 12 @ ''-01'' = ''1600-12-01''"
    "str_int 2023 @ ''-'' @ str_int (- 2) @ ''-01'' = ''2023--2-01''"
    by code_simp+
  have wf': "wf_table ([negative_month_table] ! 0)"
    by (simp add: wf_table_def negative_month_table_def)
  have ys': "column ([negative_month_table] ! 0) ''Year'' = Inr [Num 2023]"
    by (simp add: column_def negative_month_table_def cell_at_def)
  have ms': "column ([negative_month_table] ! 0) ''Month'' = Inr [Num (- 2.9)]"
    by (simp add: column_def negative_month_table_def cell_at_def)
  from add_date_column_truncates [of 0 "[fractional_table]", OF _ wf ys ms] c t v s
  have a: "date_strings fractional_table ''Year'' ''Month'' = Inr [''2023-2-01'', ''1600-12-01'']"
    "\<exists>h1. add_date_column [fractional_table] 0 ''Year'' ''Month'' ''Date'' = Inr (h1, 1)
        \<and> column (h1 ! 1) ''Date'' = Inr [Dt (2023, 2, 1), Dt (1600, 12, 1)]"
    by simp_all
  from add_date_column_truncates [of 0 "[negative_month_table]", OF _ wf' ys' ms'] c t v s
  have b: "date_strings negative_month_table ''Year'' ''Month'' = Inr [''2023--2-01'']"
    "\<exists>h1. add_date_column [negative_month_table] 0 ''Year'' ''Month'' ''Date'' = Inr (h1, 1)
        \<and> column (h1 ! 1) ''Date'' = Inr [Dt (2023, 2, 1)]"
    by simp_all
  from a b ys ms ms' c t fl v show ?thesis by simp
qed

lemma add_date_column_month_13:
  "add_date_column [\<lparr>cols = [''Year'', ''Month''], rows = [[Num 2023, Num 13]]\<rparr>] 0
     ''Year'' ''Month'' ''Date'' = Inl ValueError"
  by code_simp

lemma add_date_column_missing_year:
  "add_date_column [\<lparr>cols = [''Year'', ''Month''], rows = [[Null, Num 1]]\<rparr>] 0
     ''Year'' ''Month'' ''Date'' = Inl ValueError"
  by code_simp

text \<open>
  What the two functions do to the objects that exist when they are called.
  \<^verbatim>\<open>add_date_column\<close> changes none of them (lemma \<open>add_date_column_heap\<close>).
  \<^verbatim>\<open>_prepare_ts_df\<close> changes at most the table it was given: not at all when the
  table has no date column, and by overwriting the date column with the converted
  values when it has one.
\<close>

lemma prepare_ts_df_heap:
  assumes df: "df < length h" and wf: "wf_table (h ! df)"
    and res: "prepare_ts_df kind h df date_col = Inr (h1, df1)"
  shows "length h \<le> df1" and "\<forall>r<length h. r \<noteq> df \<longrightarrow> h1 ! r = h ! r"
    and "date_col \<notin> set (cols (h ! df)) \<longrightarrow> h1 ! df = h ! df"
    and "date_col \<in> set (cols (h ! df)) \<longrightarrow>
           (\<exists>dates. date_cells (h ! df) date_col = Inr dates
              \<and> h1 ! df = setitem (h ! df) date_col dates)"
proof -
  from res obtain dates where dc: "date_cells (h ! df) date_col = Inr dates"
    by (auto simp: prepare_ts_df_char [OF df wf] split: sum.splits)
  let ?T = "setitem (h ! df) date_col dates"
  let ?S = "?T\<lparr>rows := kind (keys_le [the (col_index date_col (cols ?T))]) (rows ?T)\<rparr>"
  from res dc have h1: "(h1, df1) =
      (if date_col \<in> set (cols (h ! df)) then (h[df := ?T] @ [?S], length h)
       else (h @ [?T, ?S], Suc (length h)))"
    by (simp add: prepare_ts_df_char [OF df wf] Let_def split: if_splits)
  then show "length h \<le> df1"
    by (auto split: if_splits)
  from h1 show "\<forall>r<length h. r \<noteq> df \<longrightarrow> h1 ! r = h ! r"
    by (auto simp: nth_append split: if_splits)
  from h1 df show "date_col \<notin> set (cols (h ! df)) \<longrightarrow> h1 ! df = h ! df"
    by (auto simp: nth_append)
  from h1 df dc show "date_col \<in> set (cols (h ! df)) \<longrightarrow>
           (\<exists>dates. date_cells (h ! df) date_col = Inr dates
              \<and> h1 ! df = setitem (h ! df) date_col dates)"
    by (auto simp: nth_append)
qed

text \<open>
  C5. \<^verbatim>\<open>_prepare_ts_df\<close> called on a table that has a Date column of strings: the
  heap holds the caller's table at reference 0. After the call that object has its
  Date column replaced by timestamps, so the caller's table is not what it was.
\<close>

theorem prepare_ts_df_overwrites_date_column:
  "prepare_ts_df stable_sort [string_date_table] 0 ''Date'' =
     Inr ([\<lparr>cols = [''Date'', ''Estimated_Deliveries''],
             rows = [[Dt (2023, 2, 1), Num 80], [Dt (2023, 1, 1), Num 100]]\<rparr>,
           \<lparr>cols = [''Date'', ''Estimated_Deliveries''],
             rows = [[Dt (2023, 1, 1), Num 100], [Dt (2023, 2, 1), Num 80]]\<rparr>], 1)
   \<and> \<lparr>cols = [''Date'', ''Estimated_Deliveries''],
       rows = [[Dt (2023, 2, 1), Num 80], [Dt (2023, 1, 1), Num 100]]\<rparr> \<noteq> string_date_table"
proof -
  have "prepare_ts_df stable_sort [string_date_table] 0 ''Date'' =
     Inr ([\<lparr>cols = [''Date'', ''Estimated_Deliveries''],
             rows = [[Dt (2023, 2, 1), Num 80], [Dt (2023, 1, 1), Num 100]]\<rparr>,
           \<lparr>cols = [''Date'', ''Estimated_Deliveries''],
             rows = [[Dt (2023, 1, 1), Num 100], [Dt (2023, 2, 1), Num 80]]\<rparr>], 1)"
    by code_simp
  then show ?thesis by (simp add: string_date_table_def)
qed

section \<open>Properties of the aggregator\<close>

lemma sum_list_mset_cong: "mset xs = mset ys \<Longrightarrow> sum_list (map f xs) = sum_list (map (f :: cell \<Rightarrow> real) ys)"
  by (metis mset_map sum_mset_sum_list)

lemma dropna_mset_cong: "mset xs = mset ys \<Longrightarrow> mset (dropna xs) = mset (dropna ys)"
  by (simp add: dropna_def)

lemma agg_sum_invariant: "mset_invariant agg_sum"
  unfolding mset_invariant_def agg_sum_def
  by (blast intro: sum_list_mset_cong dropna_mset_cong arg_cong [of _ _ Num])

lemma agg_mean_invariant: "mset_invariant agg_mean"
  unfolding mset_invariant_def
proof (intro allI impI)
  fix xs ys :: "cell list"
  assume "mset xs = mset ys"
  then have m: "mset (dropna xs) = mset (dropna ys)" by (rule dropna_mset_cong)
  then have "sum_list (map the_num (dropna xs)) = sum_list (map the_num (dropna ys))"
    by (rule sum_list_mset_cong)
  moreover from m have "length (dropna xs) = length (dropna ys)"
    by (metis size_mset)
  moreover from m have "dropna xs = [] \<longleftrightarrow> dropna ys = []"
    by (metis mset_zero_iff)
  ultimately show "agg_mean xs = agg_mean ys"
    by (simp add: agg_mean_def Let_def)
qed

lemma set_dates_of: "set (dates_of cs) = {d. Dt d \<in> set cs}"
  by (induction cs rule: dates_of.induct) auto

lemma groupby_agg_perm:
  assumes m: "mset rs' = mset rs" and inv: "mset_invariant agg"
  shows "groupby_agg agg (t\<lparr>rows := rs'\<rparr>) date_col value_cols
       = groupby_agg agg (t\<lparr>rows := rs\<rparr>) date_col value_cols"
proof -
  from m have s: "set rs' = set rs" by (rule mset_eq_setD)
  have dl: "datelike (map f rs') = datelike (map f rs)" for f
    by (simp add: datelike_def list_all_iff s)
  have nu: "numeric (map f rs') = numeric (map f rs)" for f
    by (simp add: numeric_def list_all_iff s)
  have gk: "group_keys (map f rs') = group_keys (map f rs)" for f
    by (simp add: group_keys_def set_dates_of s)
  have ag: "agg (map g (filter P rs')) = agg (map g (filter P rs))" for g P
  proof -
    from m have "mset (map g (filter P rs')) = mset (map g (filter P rs))" by simp
    with inv show ?thesis unfolding mset_invariant_def by blast
  qed
  show ?thesis
    by (auto simp: groupby_agg_def dl nu gk ag split: option.splits)
qed

lemma date_analysis_char:
  assumes perm: "sort_permutes kind" and inv: "mset_invariant agg"
    and df: "df < length h" and wf: "wf_table (h ! df)"
  shows "returned (date_analysis agg value_cols kind h df date_col) =
     (case date_cells (h ! df) date_col of
        Inl e \<Rightarrow> Inl e
      | Inr dates \<Rightarrow> groupby_agg agg (setitem (h ! df) date_col dates) date_col value_cols)"
proof (cases "date_cells (h ! df) date_col")
  case (Inl e)
  then show ?thesis
    by (simp add: date_analysis_def prepare_ts_df_char [OF df wf] returned_def)
next
  case (Inr dates)
  let ?T = "setitem (h ! df) date_col dates"
  let ?le = "keys_le [the (col_index date_col (cols ?T))]"
  let ?S = "?T\<lparr>rows := kind ?le (rows ?T)\<rparr>"
  from perm have "mset (kind ?le (rows ?T)) = mset (rows ?T)"
    by (simp add: sort_permutes_def)
  from groupby_agg_perm [OF this inv, of ?T date_col value_cols]
  have g: "groupby_agg agg ?S date_col value_cols = groupby_agg agg ?T date_col value_cols"
    by simp
  from Inr obtain h1 df1 where p: "prepare_ts_df kind h df date_col = Inr (h1, df1)"
    and S: "h1 ! df1 = ?S"
    by (cases "date_col \<in> set (cols (h ! df))")
      (auto simp: prepare_ts_df_char [OF df wf] Let_def nth_append)
  from p S g Inr show ?thesis
    by (simp add: date_analysis_def returned_def split: sum.splits)
qed


lemma groupby_agg_keys:
  assumes "groupby_agg agg t date_col value_cols = Inr series"
    and "col_index date_col (cols t) = Some i"
  shows "map fst series = group_keys (map (cell_at i) (rows t))"
  using assms
  by (auto simp: groupby_agg_def comp_def split: option.splits if_splits)

lemma group_keys_props:
  "set (group_keys cs) = set (dates_of cs)" "distinct (group_keys cs)" "sorted (group_keys cs)"
  by (simp_all add: group_keys_def)

lemma model_pivot_keys:
  assumes "model_pivot t date_col = Inr (models, pivot)"
  shows "map fst pivot = group_keys (map (cell_of t date_col)
           (filter (\<lambda>r. cell_of t date_col r \<noteq> Null \<and> cell_of t ''Model'' r \<noteq> Null) (rows t)))"
proof -
  from assms obtain i m where i: "col_index date_col (cols t) = Some i"
    and m: "col_index ''Model'' (cols t) = Some m"
    and p: "map fst pivot = group_keys (map (cell_at i)
              (filter (\<lambda>r. cell_at i r \<noteq> Null \<and> cell_at m r \<noteq> Null) (rows t)))"
    by (auto simp: model_pivot_def Let_def comp_def split: option.splits if_splits)
  from i have "cell_of t date_col = cell_at i"
    by (intro ext) (simp add: cell_of_def)
  moreover from m have "cell_of t ''Model'' = cell_at m"
    by (intro ext) (simp add: cell_of_def)
  ultimately show ?thesis using p by simp
qed

lemma model_pivot_dates:
  assumes "model_pivot t date_col = Inr (models, pivot)"
  shows "set (map fst pivot) = set (model_dates t date_col)"
    and "distinct (map fst pivot)" and "sorted (map fst pivot)"
proof -
  have "Dt d \<noteq> Null" for d by simp
  then show "set (map fst pivot) = set (model_dates t date_col)"
    unfolding model_pivot_keys [OF assms] model_dates_def
    by (auto simp: group_keys_props set_dates_of)
  show "distinct (map fst pivot)" and "sorted (map fst pivot)"
    unfolding model_pivot_keys [OF assms] by (simp_all add: group_keys_props)
qed

lemma model_dates_perm:
  "mset rs = mset (rows t) \<Longrightarrow> set (model_dates (t\<lparr>rows := rs\<rparr>) date_col) = set (model_dates t date_col)"
  by (auto simp: model_dates_def set_dates_of cell_of_def dest: mset_eq_setD)

text \<open>
  C6, amended. Each of the five analyses that group by the date alone (monthly
  deliveries, production against deliveries, average price, battery and range,
  infrastructure against sales) returns, when it returns, a series whose keys are
  exactly the dates of the rows of the source table (converted, or built from Year
  and Month), each once, in ascending order. The model-share analysis, which groups
  by date and Model, returns a table whose keys are exactly the dates of the rows of
  the source table whose Model is not missing, each once, in ascending order.
\<close>

theorem date_analysis_keys:
  assumes perm: "sort_permutes kind" and df: "df < length h" and wf: "wf_table (h ! df)"
  shows "(\<forall>analysis h1 series.
            analysis \<in> {plot_monthly_deliveries, plot_production_vs_deliveries,
              plot_avg_price_ts, plot_battery_and_range_ts, plot_infra_vs_sales_ts}
            \<and> analysis kind h df date_col = Inr (h1, series)
          \<longrightarrow> (\<exists>dates. date_cells (h ! df) date_col = Inr dates
                \<and> set (map fst series) = set (dates_of dates)
                \<and> distinct (map fst series) \<and> sorted (map fst series)))
      \<and> (\<forall>fp h1 models share.
            plot_model_share_ts fp kind h df date_col = Inr (h1, models, share)
          \<longrightarrow> (\<exists>dates. date_cells (h ! df) date_col = Inr dates
                \<and> set (map fst share) = set (model_dates (setitem (h ! df) date_col dates) date_col)
                \<and> set (map fst share) \<subseteq> set (dates_of dates)
                \<and> distinct (map fst share) \<and> sorted (map fst share)))"
proof (intro conjI allI impI)
  fix analysis h1 series
  assume "analysis \<in> {plot_monthly_deliveries, plot_production_vs_deliveries,
              plot_avg_price_ts, plot_battery_and_range_ts, plot_infra_vs_sales_ts}
            \<and> analysis kind h df date_col = Inr (h1, series)"
  then have an: "analysis \<in> {plot_monthly_deliveries, plot_production_vs_deliveries,
              plot_avg_price_ts, plot_battery_and_range_ts, plot_infra_vs_sales_ts}"
    and res: "analysis kind h df date_col = Inr (h1, series)"
    by simp_all
  from an obtain agg value_cols where a: "analysis = date_analysis agg value_cols"
    and inv: "mset_invariant agg"
    unfolding plot_monthly_deliveries_def plot_production_vs_deliveries_def
      plot_avg_price_ts_def plot_battery_and_range_ts_def plot_infra_vs_sales_ts_def
    using agg_sum_invariant agg_mean_invariant by blast
  from res a have "returned (date_analysis agg value_cols kind h df date_col) = Inr series"
    by (simp add: returned_def)
  with date_analysis_char [OF perm inv df wf, of value_cols date_col]
  obtain dates where dc: "date_cells (h ! df) date_col = Inr dates"
    and g: "groupby_agg agg (setitem (h ! df) date_col dates) date_col value_cols = Inr series"
    by (auto split: sum.splits)
  from date_cells_props(1) [OF dc] have "length dates = length (rows (h ! df))" .
  from setitem_column(1) [OF wf this, of date_col] obtain i where
    i: "col_index date_col (cols (setitem (h ! df) date_col dates)) = Some i"
       "map (cell_at i) (rows (setitem (h ! df) date_col dates)) = dates"
    by blast
  from groupby_agg_keys [OF g i(1)] i(2) have "map fst series = group_keys dates"
    by simp
  with dc show "\<exists>dates. date_cells (h ! df) date_col = Inr dates
                \<and> set (map fst series) = set (dates_of dates)
                \<and> distinct (map fst series) \<and> sorted (map fst series)"
    by (simp add: group_keys_props)
next
  fix fp h1 models share
  assume res: "plot_model_share_ts fp kind h df date_col = Inr (h1, models, share)"
  then obtain pivot where pv: "model_pivot_ts kind h df date_col = Inr (h1, models, pivot)"
    and share: "map fst share = map fst pivot"
    by (auto simp: plot_model_share_ts_def comp_def case_prod_beta split: sum.splits)
  from pv obtain df1 where prep: "prepare_ts_df kind h df date_col = Inr (h1, df1)"
    and mp: "model_pivot (h1 ! df1) date_col = Inr (models, pivot)"
    by (auto simp: model_pivot_ts_def split: sum.splits)
  from prep obtain dates where dc: "date_cells (h ! df) date_col = Inr dates"
    by (auto simp: prepare_ts_df_char [OF df wf] split: sum.splits)
  let ?T = "setitem (h ! df) date_col dates"
  let ?le = "keys_le [the (col_index date_col (cols ?T))]"
  let ?S = "?T\<lparr>rows := kind ?le (rows ?T)\<rparr>"
  from prep dc have S: "h1 ! df1 = ?S"
    by (auto simp: prepare_ts_df_char [OF df wf] Let_def nth_append split: if_splits)
  from perm have m: "mset (kind ?le (rows ?T)) = mset (rows ?T)"
    by (simp add: sort_permutes_def)
  from model_pivot_dates [OF mp] share
  have keys: "set (map fst share) = set (model_dates ?S date_col)"
    "distinct (map fst share)" "sorted (map fst share)"
    unfolding S by simp_all
  from model_dates_perm [OF m] keys(1)
  have eq: "set (map fst share) = set (model_dates ?T date_col)" by simp
  from date_cells_props(1) [OF dc] have "length dates = length (rows (h ! df))" .
  from setitem_column(1) [OF wf this, of date_col] obtain i where
    i: "col_index date_col (cols ?T) = Some i" "map (cell_at i) (rows ?T) = dates"
    by blast
  have "set (model_dates ?T date_col) \<subseteq> set (dates_of (map (cell_at i) (rows ?T)))"
    using i(1) by (auto simp: model_dates_def set_dates_of cell_of_def)
  with i(2) eq have sub: "set (map fst share) \<subseteq> set (dates_of dates)" by simp
  from dc eq sub keys(2,3)
  show "\<exists>dates. date_cells (h ! df) date_col = Inr dates
                \<and> set (map fst share) = set (model_dates (setitem (h ! df) date_col dates) date_col)
                \<and> set (map fst share) \<subseteq> set (dates_of dates)
                \<and> distinct (map fst share) \<and> sorted (map fst share)"
    by blast
qed

theorem date_analysis_keys_witness:
  "returned (plot_monthly_deliveries stable_sort [string_date_table] 0 ''Date'') =
     Inr [((2023, 1, 1), [Num 100]), ((2023, 2, 1), [Num 80])]
   \<and> date_cells string_date_table ''Date'' = Inr [Dt (2023, 2, 1), Dt (2023, 1, 1)]
   \<and> set [(2023, 1, 1), (2023, 2, 1)] = set (dates_of [Dt (2023, 2, 1), Dt (2023, 1, 1)])
   \<and> distinct [(2023::int, 1::int, 1::int), (2023, 2, 1)]
   \<and> sorted [(2023::int, 1::int, 1::int), (2023, 2, 1)]
   \<and> returned (plot_model_share_ts exact_fp stable_sort [share_example_table] 0 ''Date'') =
     Inr ([''A'', ''B''], [((2023, 1, 1), [Fin (1 / 4), Fin (3 / 4)]), ((2023, 2, 1), [NaN, NaN])])
   \<and> date_cells share_example_table ''Date''
       = Inr [Dt (2023, 1, 1), Dt (2023, 2, 1), Dt (2023, 1, 1), Dt (2023, 2, 1)]
   \<and> set [(2023, 1, 1), (2023, 2, 1)]
       = set (model_dates (setitem share_example_table ''Date''
                [Dt (2023, 1, 1), Dt (2023, 2, 1), Dt (2023, 1, 1), Dt (2023, 2, 1)]) ''Date'')"
proof -
  have r: "returned (plot_monthly_deliveries stable_sort [string_date_table] 0 ''Date'') =
     Inr [((2023, 1, 1), [Num 100]), ((2023, 2, 1), [Num 80])]"
    by code_simp
  have dc: "date_cells string_date_table ''Date'' = Inr [Dt (2023, 2, 1), Dt (2023, 1, 1)]"
    by code_simp
  have wf: "wf_table ([string_date_table] ! 0)"
    by (simp add: wf_table_def string_date_table_def)
  from returnedD [OF r] obtain h1 where p:
    "plot_monthly_deliveries stable_sort [string_date_table] 0 ''Date'' =
       Inr (h1, [((2023, 1, 1), [Num 100]), ((2023, 2, 1), [Num 80])])"
    by blast
  have len: "0 < length [string_date_table]" by simp
  from conjunct1 [OF date_analysis_keys [OF stable_sort_permutes len wf, of "''Date''"], rule_format,
      of plot_monthly_deliveries h1 "[((2023, 1, 1), [Num 100]), ((2023, 2, 1), [Num 80])]"] p
  obtain dates where "date_cells ([string_date_table] ! 0) ''Date'' = Inr dates"
    and k: "set (map fst [((2023::int, 1::int, 1::int), [Num 100]), ((2023, 2, 1), [Num 80])]) = set (dates_of dates)"
      "distinct (map fst [((2023::int, 1::int, 1::int), [Num 100]), ((2023, 2, 1), [Num 80])])"
      "sorted (map fst [((2023::int, 1::int, 1::int), [Num 100]), ((2023, 2, 1), [Num 80])])"
    by auto
  with dc have "dates = [Dt (2023, 2, 1), Dt (2023, 1, 1)]" by simp
  with k have five: "set [(2023, 1, 1), (2023, 2, 1)] = set (dates_of [Dt (2023, 2, 1), Dt (2023, 1, 1)])
     \<and> distinct [(2023::int, 1::int, 1::int), (2023, 2, 1)]
     \<and> sorted [(2023::int, 1::int, 1::int), (2023, 2, 1)]"
    by simp
  have r': "returned (plot_model_share_ts exact_fp stable_sort [share_example_table] 0 ''Date'') =
     Inr ([''A'', ''B''], [((2023, 1, 1), [Fin (1 / 4), Fin (3 / 4)]), ((2023, 2, 1), [NaN, NaN])])"
    by code_simp
  have dc': "date_cells share_example_table ''Date''
       = Inr [Dt (2023, 1, 1), Dt (2023, 2, 1), Dt (2023, 1, 1), Dt (2023, 2, 1)]"
    by code_simp
  have wf': "wf_table ([share_example_table] ! 0)"
    by (simp add: wf_table_def share_example_table_def)
  from returnedD [OF r'] obtain h2 where p':
    "plot_model_share_ts exact_fp stable_sort [share_example_table] 0 ''Date'' =
       Inr (h2, [''A'', ''B''], [((2023, 1, 1), [Fin (1 / 4), Fin (3 / 4)]), ((2023, 2, 1), [NaN, NaN])])"
    by blast
  have len': "0 < length [share_example_table]" by simp
  from conjunct2 [OF date_analysis_keys [OF stable_sort_permutes len' wf', of "''Date''"], rule_format,
      OF p']
  obtain dates' where "date_cells ([share_example_table] ! 0) ''Date'' = Inr dates'"
    and k': "set (map fst [((2023::int, 1::int, 1::int), [Fin (1 / 4), Fin (3 / 4)]), ((2023, 2, 1), [NaN, NaN])])
       = set (model_dates (setitem ([share_example_table] ! 0) ''Date'' dates') ''Date'')"
    by auto
  with dc' have "dates' = [Dt (2023, 1, 1), Dt (2023, 2, 1), Dt (2023, 1, 1), Dt (2023, 2, 1)]" by simp
  with k' have six: "set [(2023, 1, 1), (2023, 2, 1)]
       = set (model_dates (setitem share_example_table ''Date''
                [Dt (2023, 1, 1), Dt (2023, 2, 1), Dt (2023, 1, 1), Dt (2023, 2, 1)]) ''Date'')"
    by simp
  from r dc five r' dc' six show ?thesis by blast
qed

text \<open>
  C6 as stated fails for the model-share analysis: the table has rows in January and
  in February 2023, the row of February has no Model, and the share table has the
  one entry of January.
\<close>

theorem model_share_skips_date:
  "date_cells missing_model_table ''Date'' = Inr [Dt (2023, 1, 1), Dt (2023, 2, 1)]
   \<and> returned (plot_model_share_ts exact_fp stable_sort [missing_model_table] 0 ''Date'') =
     Inr ([''A''], [((2023, 1, 1), [Fin 1])])
   \<and> (2023, 2, 1) \<notin> set (map fst [((2023::int, 1::int, 1::int), [Fin 1])])"
proof -
  have "date_cells missing_model_table ''Date'' = Inr [Dt (2023, 1, 1), Dt (2023, 2, 1)]"
    by code_simp
  moreover have "returned (plot_model_share_ts exact_fp stable_sort [missing_model_table] 0 ''Date'') =
     Inr ([''A''], [((2023, 1, 1), [Fin 1])])"
    by code_simp
  ultimately show ?thesis by simp
qed

text \<open>
  C7. On the scenario table the monthly totals are 150 for January 2023 and 80 for
  February 2023, whatever order the sort leaves rows of one date in.
\<close>

theorem monthly_deliveries_scenario:
  assumes "sort_permutes kind"
  shows "returned (plot_monthly_deliveries kind [scenario_table] 0 ''Date'') =
     Inr [((2023, 1, 1), [Num 150]), ((2023, 2, 1), [Num 80])]"
proof -
  have wf: "wf_table ([scenario_table] ! 0)"
    by (simp add: wf_table_def scenario_table_def)
  have "(case date_cells ([scenario_table] ! 0) ''Date'' of
           Inl e \<Rightarrow> Inl e
         | Inr dates \<Rightarrow> groupby_agg agg_sum (setitem ([scenario_table] ! 0) ''Date'' dates)
             ''Date'' [''Estimated_Deliveries''])
       = Inr [((2023, 1, 1), [Num 150]), ((2023, 2, 1), [Num 80])]"
    by code_simp
  with date_analysis_char [OF assms agg_sum_invariant _ wf, of "[''Estimated_Deliveries'']" "''Date''"]
  show ?thesis by (simp add: plot_monthly_deliveries_def)
qed

theorem monthly_deliveries_scenario_witness:
  "returned (plot_monthly_deliveries stable_sort [scenario_table] 0 ''Date'') =
     Inr [((2023, 1, 1), [Num 150]), ((2023, 2, 1), [Num 80])]"
  by (rule monthly_deliveries_scenario [OF stable_sort_permutes])

section \<open>Properties of the exporter\<close>

lemma save_loop_last:
  "items \<noteq> [] \<Longrightarrow> save_loop items bound = Some (sanitize (fst (last items)), snd (last items))"
  by (induction items bound rule: save_loop.induct) (auto split: prod.splits)

lemma sanitize_US: "sanitize ''US'' = ''us''"
  by code_simp

lemma sanitize_EU: "sanitize ''EU'' = ''eu''"
  by code_simp

lemma sanitize_examples:
  "sanitize ''North America'' = ''north_america''"
  "sanitize ''Asia/Pacific'' = ''asia_pacific''"
  "sanitize '' EU '' = ''eu''"
  by code_simp+

text \<open>
  C1. With two or more regions the call raises nothing and changes the file system
  by one directory and exactly one file: the table of the last item, at the path
  built from the sanitized name of the last item. No other path is written.
\<close>

theorem save_region_dfs_writes_last_only:
  assumes "2 \<le> length region_dfs"
  shows "save_region_dfs region_dfs out_dir prefix index s =
     (None, s\<lparr>dirs := insert out_dir (dirs s),
              files := (files s)(path_join out_dir (prefix @ sanitize (fst (last region_dfs)) @ ''.csv'')
                         \<mapsto> (index, snd (last region_dfs)))\<rparr>)"
proof -
  from assms have "region_dfs \<noteq> []" by auto
  then show ?thesis
    by (simp add: save_region_dfs_def save_loop_last mkdir_def to_csv_def)
qed

theorem save_region_dfs_writes_last_only_witness:
  "save_region_dfs
     [(''North America'', \<lparr>cols = [''Year''], rows = [[Num 2023]]\<rparr>),
      (''Asia/Pacific'', \<lparr>cols = [''Year''], rows = [[Num 2024]]\<rparr>),
      ('' EU '', \<lparr>cols = [''Year''], rows = [[Num 2025]]\<rparr>)]
     ''out'' ''tesla_'' False empty_fs =
   (None, \<lparr>dirs = {''out''},
            files = [''out/tesla_eu.csv'' \<mapsto> (False, \<lparr>cols = [''Year''], rows = [[Num 2025]]\<rparr>)]\<rparr>)"
  using save_region_dfs_writes_last_only
    [of "[(''North America'', \<lparr>cols = [''Year''], rows = [[Num 2023]]\<rparr>),
          (''Asia/Pacific'', \<lparr>cols = [''Year''], rows = [[Num 2024]]\<rparr>),
          ('' EU '', \<lparr>cols = [''Year''], rows = [[Num 2025]]\<rparr>)]"
        "''out''" "''tesla_''" False empty_fs]
  by (simp add: empty_fs_def path_join_def sanitize_examples)

text \<open>
  C8. The scenario of the specification, run on the code: regions US and EU, prefix
  \<^verbatim>\<open>tesla_\<close>, an empty output directory. Only \<^verbatim>\<open>tesla_eu.csv\<close> exists afterwards;
  \<^verbatim>\<open>tesla_us.csv\<close> is never written.
\<close>

theorem save_region_dfs_scenario:
  "save_region_dfs [(''US'', t1), (''EU'', t2)] ''out'' ''tesla_'' False empty_fs =
     (None, \<lparr>dirs = {''out''}, files = [''out/tesla_eu.csv'' \<mapsto> (False, t2)]\<rparr>)
   \<and> files (snd (save_region_dfs [(''US'', t1), (''EU'', t2)] ''out'' ''tesla_'' False empty_fs))
       ''out/tesla_us.csv'' = None"
  by (simp add: save_region_dfs_def mkdir_def to_csv_def empty_fs_def path_join_def
      sanitize_US sanitize_EU)

end
